(* ===== verification/Prelude.thy ===== *)
theory Prelude
  imports Main "HOL-Library.AList"
begin

text \<open>
  Shared vocabulary of the development: the JavaScript values the sources compare
  and store (\<open>jsval\<close>), the three equalities JavaScript uses on them (\<open>===\<close>,
  SameValueZero for \<open>Map\<close> keys, and the loose \<open>!= null\<close> test), plain objects
  as association lists in property-enumeration order, JavaScript \<open>Map\<close>s as
  association lists compared by SameValueZero, sparse arrays, and the generic list
  and association-list lemmas the component theories share.
\<close>

named_theorems js_simps \<open>evaluation rules of the JavaScript value helpers\<close>

section \<open>JavaScript values\<close>

text \<open>
  Numbers are integers with a separate \<open>NaN\<close> (the only number the sources'
  comparisons treat specially); functions and objects are references, compared by
  identity, the \<open>nat\<close> of \<open>JFun\<close> and \<open>JObj\<close>. Where the sources read an
  object's properties (\<open>Object.assign\<close> of a style object), they come from an
  object heap \<open>nat \<Rightarrow> jsobj\<close> passed explicitly.
\<close>

datatype jsval =
    JUndefined
  | JNull
  | JBool bool
  | JNum int
  | JNaN
  | JStr string
  | JFun nat
  | JObj nat

text \<open>\<open>a === b\<close>: NaN is unequal to everything, itself included.\<close>

definition strict_eq :: "jsval \<Rightarrow> jsval \<Rightarrow> bool" where
  "strict_eq a b = (a = b \<and> a \<noteq> JNaN)"

text \<open>SameValueZero, the key equality of \<open>Map\<close> and \<open>Set\<close>: as \<open>===\<close>, but NaN
  equals NaN (\<open>+0\<close> and \<open>-0\<close>, which it also identifies, are one integer here).\<close>

definition same_value_zero :: "jsval \<Rightarrow> jsval \<Rightarrow> bool" where
  "same_value_zero a b = (a = b)"

text \<open>\<open>x != null\<close> fails exactly for \<open>null\<close> and \<open>undefined\<close>.\<close>

fun nullish :: "jsval \<Rightarrow> bool" where
  "nullish JUndefined = True"
| "nullish JNull = True"
| "nullish _ = False"

text \<open>\<open>typeof v === 'object'\<close>: objects and \<open>null\<close>.\<close>

fun typeof_object :: "jsval \<Rightarrow> bool" where
  "typeof_object JNull = True"
| "typeof_object (JObj _) = True"
| "typeof_object _ = False"

text \<open>Decimal digits of a number, for \<open>String(n)\<close>.\<close>

fun nat_str :: "nat \<Rightarrow> string" where
  "nat_str n = (if n < 10 then [char_of (48 + n)] else nat_str (n div 10) @ [char_of (48 + n mod 10)])"

declare nat_str.simps [simp del]

definition int_str :: "int \<Rightarrow> string" where
  "int_str i = (if i < 0 then CHR ''-'' # nat_str (nat (- i)) else nat_str (nat i))"

text \<open>\<open>String(v)\<close>. A function's source text is not modelled: it is rendered as
  \<open>''function''\<close>.\<close>

fun js_String :: "jsval \<Rightarrow> string" where
  "js_String JUndefined = ''undefined''"
| "js_String JNull = ''null''"
| "js_String (JBool b) = (if b then ''true'' else ''false'')"
| "js_String (JNum i) = int_str i"
| "js_String JNaN = ''NaN''"
| "js_String (JStr s) = s"
| "js_String (JFun _) = ''function''"
| "js_String (JObj _) = ''[object Object]''"

section \<open>Plain objects\<close>

text \<open>
  A plain object (\<open>props\<close>, an element's attribute bag) is an association list in
  \<open>for ... in\<close> enumeration order. \<open>obj[k]\<close> reads \<open>undefined\<close> for a missing
  property; \<open>k in obj\<close> tests presence. Own properties only: the prototype chain is
  not modelled.
\<close>

type_synonym jsobj = "(string \<times> jsval) list"

definition prop_get :: "jsobj \<Rightarrow> string \<Rightarrow> jsval" where
  "prop_get obj k = (case map_of obj k of None \<Rightarrow> JUndefined | Some v \<Rightarrow> v)"

definition prop_has :: "jsobj \<Rightarrow> string \<Rightarrow> bool" where
  "prop_has obj k = (k \<in> set (map fst obj))"

text \<open>A JavaScript object never has two properties of the same name.\<close>

definition wf_obj :: "jsobj \<Rightarrow> bool" where
  "wf_obj obj = distinct (map fst obj)"

section \<open>Maps keyed by SameValueZero\<close>

text \<open>
  A \<open>Map\<close> in insertion order. \<open>set\<close> on a present key keeps the key's position
  and replaces its value, as \<open>Map.prototype.set\<close> does.
\<close>

type_synonym 'a jsmap = "(jsval \<times> 'a) list"

fun jsmap_set :: "'a jsmap \<Rightarrow> jsval \<Rightarrow> 'a \<Rightarrow> 'a jsmap" where
  "jsmap_set [] k v = [(k, v)]"
| "jsmap_set ((k', v') # m) k v =
     (if same_value_zero k' k then (k', v) # m else (k', v') # jsmap_set m k v)"

fun jsmap_get :: "'a jsmap \<Rightarrow> jsval \<Rightarrow> 'a option" where
  "jsmap_get [] k = None"
| "jsmap_get ((k', v) # m) k = (if same_value_zero k' k then Some v else jsmap_get m k)"

section \<open>Sparse arrays\<close>

text \<open>
  \<open>a[i] = v\<close> on a JavaScript array: beyond the end the array grows and the gap is
  holes (\<open>None\<close>); \<open>forEach\<close> skips holes, \<open>length\<close> counts them.
\<close>

definition arr_set :: "'a option list \<Rightarrow> nat \<Rightarrow> 'a \<Rightarrow> 'a option list" where
  "arr_set xs i v =
     (if i < length xs then xs[i := Some v] else xs @ replicate (i - length xs) None @ [Some v])"

definition arr_get :: "'a list \<Rightarrow> nat \<Rightarrow> 'a option" where
  "arr_get xs i = (if i < length xs then Some (xs ! i) else None)"

section \<open>Strings and truthiness\<close>

text \<open>\<open>if (v)\<close>: the falsy values are \<open>undefined\<close>, \<open>null\<close>, \<open>false\<close>, \<open>0\<close>,
  \<open>NaN\<close> and the empty string.\<close>

fun truthy :: "jsval \<Rightarrow> bool" where
  "truthy JUndefined = False"
| "truthy JNull = False"
| "truthy (JBool b) = b"
| "truthy (JNum i) = (i \<noteq> 0)"
| "truthy JNaN = False"
| "truthy (JStr s) = (s \<noteq> [])"
| "truthy (JFun _) = True"
| "truthy (JObj _) = True"

text \<open>\<open>s.toLowerCase()\<close> on the ASCII letters (the names the sources lower-case are
  identifiers).\<close>

definition lower_char :: "char \<Rightarrow> char" where
  "lower_char c = (let n = of_char c :: nat in if 65 \<le> n \<and> n \<le> 90 then char_of (n + 32) else c)"

definition toLowerCase :: "string \<Rightarrow> string" where
  "toLowerCase s = map lower_char s"

definition upper_char :: "char \<Rightarrow> char" where
  "upper_char c = (let n = of_char c :: nat in if 97 \<le> n \<and> n \<le> 122 then char_of (n - 32) else c)"

definition toUpperCase :: "string \<Rightarrow> string" where
  "toUpperCase s = map upper_char s"

definition startsWith :: "string \<Rightarrow> string \<Rightarrow> bool" where
  "startsWith s p = (take (length p) s = p)"

section \<open>Errors\<close>

text \<open>A computation that may throw: \<open>Inl\<close> carries the exception, \<open>Inr\<close> the
  result. \<open>ebind\<close> sequences two such computations, propagating the first throw.\<close>

definition ebind :: "'e + 'a \<Rightarrow> ('a \<Rightarrow> 'e + 'b) \<Rightarrow> 'e + 'b" where
  "ebind m f = (case m of Inl e \<Rightarrow> Inl e | Inr a \<Rightarrow> f a)"

section \<open>Shared lemmas\<close>

lemma strict_eq_refl_iff [js_simps]: "strict_eq v v \<longleftrightarrow> v \<noteq> JNaN"
  by (simp add: strict_eq_def)

lemma strict_eq_iff [js_simps]: "strict_eq a b \<longleftrightarrow> a = b \<and> a \<noteq> JNaN"
  by (simp add: strict_eq_def)

lemma same_value_zero_iff [js_simps]: "same_value_zero a b \<longleftrightarrow> a = b"
  by (simp add: same_value_zero_def)

lemma prop_get_Nil [simp]: "prop_get [] k = JUndefined"
  by (simp add: prop_get_def)

lemma prop_get_Cons [simp]:
  "prop_get ((k', v) # obj) k = (if k' = k then v else prop_get obj k)"
  by (simp add: prop_get_def)

lemma prop_has_Nil [simp]: "\<not> prop_has [] k"
  by (simp add: prop_has_def)

lemma prop_has_Cons [simp]: "prop_has ((k', v) # obj) k = (k' = k \<or> prop_has obj k)"
  by (auto simp add: prop_has_def)

lemma prop_get_not_has: "\<not> prop_has obj k \<Longrightarrow> prop_get obj k = JUndefined"
  by (induction obj) auto

lemma prop_get_mem:
  "wf_obj obj \<Longrightarrow> (k, v) \<in> set obj \<Longrightarrow> prop_get obj k = v"
  by (simp add: prop_get_def wf_obj_def)

lemma prop_has_iff_map_of: "prop_has obj k \<longleftrightarrow> map_of obj k \<noteq> None"
  by (simp add: prop_has_def map_of_eq_None_iff)

lemma wf_obj_Nil [simp]: "wf_obj []"
  by (simp add: wf_obj_def)

lemma wf_obj_Cons [simp]: "wf_obj ((k, v) # obj) \<longleftrightarrow> \<not> prop_has obj k \<and> wf_obj obj"
  by (simp add: wf_obj_def prop_has_def)

lemma jsmap_get_set:
  "jsmap_get (jsmap_set m k v) k' = (if k = k' then Some v else jsmap_get m k')"
  by (induction m k v rule: jsmap_set.induct) (auto simp: same_value_zero_def)

lemma jsmap_get_eq_map_of: "jsmap_get m k = map_of m k"
  by (induction m) (auto simp: same_value_zero_def)

lemma jsmap_get_SomeD: "jsmap_get m k = Some v \<Longrightarrow> v \<in> snd ` set m"
  by (induction m) (auto split: if_splits)

lemma jsmap_set_values: "(k', x) \<in> set (jsmap_set m k v) \<Longrightarrow> x = v \<or> x \<in> snd ` set m"
  by (induction m k v rule: jsmap_set.induct) (auto split: if_splits intro: rev_image_eqI)

lemma jsmap_set_values_subset: "snd ` set (jsmap_set m k v) \<subseteq> insert v (snd ` set m)"
  by (induction m k v rule: jsmap_set.induct) auto

lemma arr_get_Nil [simp]: "arr_get [] i = None"
  by (simp add: arr_get_def)

lemma arr_get_Cons_0 [simp]: "arr_get (x # xs) 0 = Some x"
  by (simp add: arr_get_def)

lemma arr_get_Cons_Suc [simp]: "arr_get (x # xs) (Suc i) = arr_get xs i"
  by (simp add: arr_get_def)

lemma set_map_filter: "set (List.map_filter f xs) = {y. \<exists>x\<in>set xs. f x = Some y}"
  by (induction xs) (auto split: option.splits)

lemma map_filter_append [simp]:
  "List.map_filter f (xs @ ys) = List.map_filter f xs @ List.map_filter f ys"
  by (induction xs) (auto split: option.splits)

lemma map_filter_Some_id:
  "(\<And>x. x \<in> set xs \<Longrightarrow> f x = Some x) \<Longrightarrow> List.map_filter f xs = xs"
  by (induction xs) simp_all

lemma map_enumerate_nth: "map f (enumerate 0 xs) = map (\<lambda>j. f (j, xs ! j)) [0..<length xs]"
  by (rule nth_equalityI) (simp_all add: nth_enumerate_eq)

lemma enumerate0_map: "enumerate 0 xs = map (\<lambda>j. (j, xs ! j)) [0..<length xs]"
  by (rule nth_equalityI) (simp_all add: nth_enumerate_eq)

lemma map_filter_map_Some:
  "(\<And>x. x \<in> set xs \<Longrightarrow> f (g x) = Some (r x)) \<Longrightarrow> List.map_filter f (map g xs) = map r xs"
  by (induction xs) simp_all

lemma map_filter_map_None:
  "(\<And>x. x \<in> set xs \<Longrightarrow> f (g x) = None) \<Longrightarrow> List.map_filter f (map g xs) = []"
  by (induction xs) simp_all

lemma distinct_map_filter_inj:
  "distinct xs \<Longrightarrow> (\<And>x y i. x \<in> set xs \<Longrightarrow> y \<in> set xs \<Longrightarrow> f x = Some i \<Longrightarrow> f y = Some i \<Longrightarrow> x = y)
   \<Longrightarrow> distinct (List.map_filter f xs)"
proof (induction xs)
  case Nil
  then show ?case by simp
next
  case (Cons x xs)
  then have "distinct (List.map_filter f xs)" by simp
  moreover have "f x = Some i \<Longrightarrow> i \<notin> set (List.map_filter f xs)" for i
    using Cons.prems by (force simp: set_map_filter)
  ultimately show ?case by (simp split: option.splits)
qed


lemma arr_set_length: "length (arr_set xs i v) = max (length xs) (Suc i)"
  by (simp add: arr_set_def)

lemma arr_set_append_end [simp]: "arr_set xs (length xs) v = xs @ [Some v]"
  by (simp add: arr_set_def)

lemma ebind_simps [simp]: "ebind (Inl e) f = Inl e" "ebind (Inr a) f = f a"
  by (simp_all add: ebind_def)

lemma ebind_eq_Inr: "ebind m f = Inr b \<longleftrightarrow> (\<exists>a. m = Inr a \<and> f a = Inr b)"
  by (cases m) auto

lemma ebind_eq_Inl: "ebind m f = Inl e \<longleftrightarrow> m = Inl e \<or> (\<exists>a. m = Inr a \<and> f a = Inl e)"
  by (cases m) auto

lemma ebind_cong [fundef_cong]:
  "m = m' \<Longrightarrow> (\<And>a. m' = Inr a \<Longrightarrow> f a = f' a) \<Longrightarrow> ebind m f = ebind m' f'"
  by (cases m') auto

text \<open>For evaluation: rewrite the continuation of \<open>ebind\<close> only once the first
  computation is a value.\<close>

lemma ebind_weak_cong: "m = m' \<Longrightarrow> ebind m f = ebind m' f"
  by simp

end
