(* ===== verification/VNode.thy ===== *)
theory VNode
  imports Prelude
begin

text \<open>
  The tree-description model of \<^verbatim>\<open>src/src/vdom.js\<close> (lines 1--18): a virtual node
  \<open>{type, props, children, text}\<close> as the datatype \<open>vnode\<close>, the text-node
  constructor \<open>createTextVNode\<close> and the builder \<open>h\<close>, with its
  \<open>children.flat(Infinity)\<close> and the coercion of every non-object child to a text node.
  The well-formedness predicate \<open>wf_vnode\<close> says what \<open>h\<close> guarantees.
\<close>

text \<open>
  \<open>vtext\<close> is \<open>None\<close> when the object has no \<open>text\<close> property (every node
  \<open>h\<close> builds); \<open>createTextVNode\<close> sets it.
\<close>

datatype vnode = VNode (vtype: string) (vprops: jsobj) (vchildren: "vnode list") (vtext: "string option")

abbreviation TEXT_TYPE :: string where
  "TEXT_TYPE \<equiv> ''TEXT''"

definition createTextVNode :: "jsval \<Rightarrow> vnode" where
  "createTextVNode text = VNode TEXT_TYPE [] [] (Some (js_String text))"

text \<open>
  An argument of \<open>h(type, props, ...children)\<close>: a vnode, a (nested) array, or a
  non-vnode value. \<open>typeof child === 'object'\<close> keeps objects as they are; a non-vnode
  object (\<open>null\<close> included) is therefore not a tree description, and \<open>h\<close> then
  returns \<open>None\<close> here (the sources later dereference it).
\<close>

datatype child = CNode vnode | CArray "child list" | CPrim jsval

fun flat :: "child list \<Rightarrow> child list" where
  "flat [] = []"
| "flat (CArray xs # ys) = flat xs @ flat ys"
| "flat (c # ys) = c # flat ys"

fun child_vnode :: "child \<Rightarrow> vnode option" where
  "child_vnode (CNode v) = Some v"
| "child_vnode (CPrim p) = (if typeof_object p then None else Some (createTextVNode p))"
| "child_vnode (CArray _) = None"

definition h :: "string \<Rightarrow> jsobj option \<Rightarrow> child list \<Rightarrow> vnode option" where
  "h type props children =
     (let cs = map child_vnode (flat children)
      in if None \<in> set cs then None
         else Some (VNode type (case props of None \<Rightarrow> [] | Some p \<Rightarrow> p) (map the cs) None))"

text \<open>
  A well-formed tree description: its objects have distinct property names, a text node
  has no props, no children and a text, an element has no text.
\<close>

fun wf_vnode :: "vnode \<Rightarrow> bool" where
  "wf_vnode (VNode t p cs x) =
     (wf_obj p \<and> (if t = TEXT_TYPE then p = [] \<and> cs = [] \<and> x \<noteq> None else x = None)
      \<and> (\<forall>c \<in> set cs. wf_vnode c))"

lemma flat_no_array: "CArray xs \<notin> set (flat cs)"
  by (induction cs rule: flat.induct) auto

lemma flat_append [simp]: "flat (xs @ ys) = flat xs @ flat ys"
  by (induction xs rule: flat.induct) auto

lemma wf_createTextVNode [simp]: "wf_vnode (createTextVNode v)"
  by (simp add: createTextVNode_def)

end
