(* ===== verification/Diff.thy ===== *)
theory Diff
  imports VNode "HOL-Library.Multiset"
begin

text \<open>
  The differ and the keyed reconciler of \<^verbatim>\<open>src/src/vdom.js\<close> (lines 20--131):
  \<open>diff\<close>, \<open>diffProps\<close> and \<open>diffChildren\<close> with its positional fallback and its
  key-based matching. A patch is the datatype \<open>patch\<close>; JavaScript's \<open>null\<close>
  ("nothing to do") is \<open>None\<close> of \<open>patch option\<close>. The one-time console warnings
  of \<open>diffChildren\<close> do not influence any returned patch; they are modelled apart
  in the theory \<open>Warnings\<close> (\<open>diag_children\<close>).
\<close>

section \<open>Patches\<close>

datatype prop_patch = SET_PROP string jsval | REMOVE_PROP string

datatype patch =
    CREATE "vnode option"
  | REMOVE
  | REPLACE vnode
  | TEXT "string option"
  | UPDATE "prop_patch list" child_patches
and child_patches =
    Positional "patch option list"
  | Keyed "keyed_patch list"
and keyed_patch =
    KPatch (oldIndex: "nat option") (newIndex: "nat option") (kkey: jsval) (kpatch: "patch option")

text \<open>\<open>childPatches.patches.length\<close>.\<close>

fun cp_length :: "child_patches \<Rightarrow> nat" where
  "cp_length (Positional ps) = length ps"
| "cp_length (Keyed ks) = length ks"

section \<open>Props\<close>

definition diffProps :: "jsobj \<Rightarrow> jsobj \<Rightarrow> prop_patch list" where
  "diffProps oldProps newProps =
     map (\<lambda>(k, v). SET_PROP k v) (filter (\<lambda>(k, v). \<not> strict_eq (prop_get oldProps k) v) newProps)
     @ map (\<lambda>(k, v). REMOVE_PROP k) (filter (\<lambda>(k, v). \<not> prop_has newProps k) oldProps)"

section \<open>Keys\<close>

text \<open>\<open>c?.props?.key\<close>.\<close>

definition key_of :: "vnode \<Rightarrow> jsval" where
  "key_of c = prop_get (vprops c) ''key''"

definition keyedCount :: "vnode list \<Rightarrow> nat" where
  "keyedCount cs = length (filter (\<lambda>c. \<not> nullish (key_of c)) cs)"

text \<open>The \<open>oldKeyMap\<close> of \<open>diffChildren\<close>: key \<open>\<mapsto>\<close> \<open>(child, index)\<close>, a later
  child overwriting an earlier one with the same key.\<close>

definition oldKeyMap :: "vnode list \<Rightarrow> (vnode \<times> nat) jsmap" where
  "oldKeyMap olds =
     fold (\<lambda>(i, c) m. if nullish (key_of c) then m else jsmap_set m (key_of c) (c, i))
       (enumerate 0 olds) []"

lemma fold_keymap_values:
  "x \<in> snd ` set (fold (\<lambda>(i, c) m. if nullish (key_of c) then m else jsmap_set m (key_of c) (c, i)) xs m)
   \<Longrightarrow> x \<in> snd ` set m \<or> prod.swap x \<in> set xs"
proof (induction xs arbitrary: m)
  case Nil
  then show ?case by simp
next
  case (Cons y xs)
  obtain i c where y: "y = (i, c)" by fastforce
  let ?m = "if nullish (key_of c) then m else jsmap_set m (key_of c) (c, i)"
  from Cons.prems y have "x \<in> snd ` set ?m \<or> prod.swap x \<in> set xs"
    by (intro Cons.IH) simp
  moreover have "snd ` set ?m \<subseteq> insert (c, i) (snd ` set m)"
    using jsmap_set_values_subset [of m "key_of c" "(c, i)"] by (cases "nullish (key_of c)") auto
  ultimately show ?case using y by auto
qed

lemma oldKeyMap_values:
  assumes "jsmap_get (oldKeyMap olds) k = Some (c, i)"
  shows "c \<in> set olds"
proof -
  from assms have "(c, i) \<in> snd ` set (oldKeyMap olds)" by (rule jsmap_get_SomeD)
  then have "(i, c) \<in> set (enumerate 0 olds)"
    using fold_keymap_values [of "(c, i)" "enumerate 0 olds" "[]"] by (simp add: oldKeyMap_def)
  then show ?thesis by (auto simp: in_set_enumerate_eq)
qed

section \<open>The differ\<close>

fun vsize_opt :: "vnode option \<Rightarrow> nat" where
  "vsize_opt None = 0"
| "vsize_opt (Some v) = size v"


function diff :: "vnode option \<Rightarrow> vnode option \<Rightarrow> patch option"
  and diffChildren :: "vnode list \<Rightarrow> vnode list \<Rightarrow> child_patches"
  and diffPositional :: "vnode list \<Rightarrow> vnode list \<Rightarrow> patch option list"
where
  "diff None n = Some (CREATE n)"
| "diff (Some old) None = Some REMOVE"
| "diff (Some old) (Some new) =
     (if vtype old \<noteq> vtype new then Some (REPLACE new)
      else if vtype old = TEXT_TYPE then
        (if vtext old \<noteq> vtext new then Some (TEXT (vtext new)) else None)
      else
        (let propPatches = diffProps (vprops old) (vprops new);
             childPatches = diffChildren (vchildren old) (vchildren new)
         in if 0 < length propPatches \<or> 0 < cp_length childPatches
            then Some (UPDATE propPatches childPatches) else None))"
| "diffChildren olds news =
     (if keyedCount news \<noteq> length news then Positional (diffPositional olds news)
      else
        (let matched =
               map (\<lambda>(j, nc).
                      case (if nullish (key_of nc) then None else jsmap_get (oldKeyMap olds) (key_of nc)) of
                        Some (oc, i) \<Rightarrow> KPatch (Some i) (Some j) (key_of nc) (diff (Some oc) (Some nc))
                      | None \<Rightarrow> KPatch None (Some j) (key_of nc) (Some (CREATE (Some nc))))
                 (enumerate 0 news);
             usedOldIndices = List.map_filter oldIndex matched;
             removed =
               map (\<lambda>(i, c). KPatch (Some i) None (key_of c) (Some REMOVE))
                 (filter (\<lambda>(i, c). i \<notin> set usedOldIndices) (enumerate 0 olds))
         in Keyed (matched @ removed)))"
| "diffPositional [] [] = []"
| "diffPositional (oc # ocs) [] = diff (Some oc) None # diffPositional ocs []"
| "diffPositional [] (nc # ncs) = diff None (Some nc) # diffPositional [] ncs"
| "diffPositional (oc # ocs) (nc # ncs) = diff (Some oc) (Some nc) # diffPositional ocs ncs"
  by pat_completeness auto

termination
proof (relation "measure (\<lambda>x. case x of
          Inl (a, b) \<Rightarrow> 2 * (vsize_opt a + vsize_opt b) + 1
        | Inr (Inl (os, ns)) \<Rightarrow> 2 * (size_list size os + size_list size ns) + 2
        | Inr (Inr (os, ns)) \<Rightarrow> 2 * (size_list size os + size_list size ns) + 1)", goal_cases)
  case 1
  then show ?case by simp
next
  case (2 old new)
  then show ?case by (cases old; cases new) simp
next
  case (3 olds news)
  then show ?case by simp
next
  case (4 olds news x j nc y oc i)
  then have "oc \<in> set olds" by (auto split: if_splits intro: oldKeyMap_values)
  moreover from 4 have "nc \<in> set news" by (auto simp: in_set_enumerate_eq)
  ultimately have "size oc \<le> size_list size olds" "size nc \<le> size_list size news"
    by (auto intro: size_list_estimation')
  then show ?case by simp
qed (simp_all)

section \<open>Abstract semantics of attribute patches\<close>

text \<open>
  What an attribute patch means on the attribute surface of a node, independent of the
  DOM: \<open>SET_PROP\<close> stores a value, \<open>REMOVE_PROP\<close> deletes the key.
\<close>

fun apply_prop_patch :: "jsobj \<Rightarrow> prop_patch \<Rightarrow> jsobj" where
  "apply_prop_patch obj (SET_PROP k v) = AList.update k v obj"
| "apply_prop_patch obj (REMOVE_PROP k) = AList.delete k obj"

definition apply_prop_patches :: "prop_patch list \<Rightarrow> jsobj \<Rightarrow> jsobj" where
  "apply_prop_patches ps obj = fold (\<lambda>p o'. apply_prop_patch o' p) ps obj"

text \<open>
  A patch that changes nothing: absent, or an \<open>UPDATE\<close> with no attribute patch whose
  child patches change nothing, a keyed child patch keeping its child in place.
\<close>

fun patch_noop :: "patch option \<Rightarrow> bool"
  and cps_noop :: "child_patches \<Rightarrow> bool"
  and kp_noop :: "keyed_patch \<Rightarrow> bool" where
  "patch_noop None = True"
| "patch_noop (Some (UPDATE pps cps)) = (pps = [] \<and> cps_noop cps)"
| "patch_noop (Some (CREATE _)) = False"
| "patch_noop (Some REMOVE) = False"
| "patch_noop (Some (REPLACE _)) = False"
| "patch_noop (Some (TEXT _)) = False"
| "cps_noop (Positional ps) = list_all patch_noop ps"
| "cps_noop (Keyed ks) = list_all kp_noop ks"
| "kp_noop (KPatch oi ni k p) = (oi = ni \<and> oi \<noteq> None \<and> patch_noop p)"

text \<open>Siblings that carry keys carry distinct keys, at every level.\<close>

fun wf_keys :: "vnode \<Rightarrow> bool" where
  "wf_keys (VNode t p cs x) =
     (distinct (map key_of (filter (\<lambda>c. \<not> nullish (key_of c)) cs)) \<and> (\<forall>c\<in>set cs. wf_keys c))"

text \<open>No attribute value is \<open>NaN\<close>, at every level.\<close>

fun nan_free :: "vnode \<Rightarrow> bool" where
  "nan_free (VNode t p cs x) = (JNaN \<notin> set (map snd p) \<and> (\<forall>c\<in>set cs. nan_free c))"

text \<open>Reference for the key map: the last old index that carries a key.\<close>

definition last_key_index :: "vnode list \<Rightarrow> jsval \<Rightarrow> nat option" where
  "last_key_index cs k =
     (let ixs = filter (\<lambda>i. key_of (cs ! i) = k) [0..<length cs]
      in if ixs = [] then None else Some (last ixs))"

text \<open>The keyed branch, index by index, with the key map read through
  \<open>last_key_index\<close>.\<close>

definition keyed_entry :: "vnode list \<Rightarrow> vnode list \<Rightarrow> nat \<Rightarrow> keyed_patch" where
  "keyed_entry olds news j =
     (case last_key_index olds (key_of (news ! j)) of
        Some i \<Rightarrow> KPatch (Some i) (Some j) (key_of (news ! j)) (diff (Some (olds ! i)) (Some (news ! j)))
      | None \<Rightarrow> KPatch None (Some j) (key_of (news ! j)) (Some (CREATE (Some (news ! j)))))"

definition keyed_used :: "vnode list \<Rightarrow> vnode list \<Rightarrow> nat list" where
  "keyed_used olds news = List.map_filter (\<lambda>j. last_key_index olds (key_of (news ! j))) [0..<length news]"

definition keyed_removed :: "vnode list \<Rightarrow> vnode list \<Rightarrow> keyed_patch list" where
  "keyed_removed olds news =
     map (\<lambda>i. KPatch (Some i) None (key_of (olds ! i)) (Some REMOVE))
       (filter (\<lambda>i. i \<notin> set (keyed_used olds news)) [0..<length olds])"

section \<open>Lemmas on the differ\<close>

lemma map_of_fold_set:
  "map_of (fold (\<lambda>p o'. apply_prop_patch o' p) (map (\<lambda>(k, v). SET_PROP k v) xs) al) =
     map_of al ++ map_of (rev xs)"
  by (induction xs arbitrary: al) (auto simp: update_conv' map_add_def fun_eq_iff split: option.splits)

lemma map_of_fold_remove:
  "map_of (fold (\<lambda>p o'. apply_prop_patch o' p) (map (\<lambda>(k, v). REMOVE_PROP k) xs) al) k =
     (if k \<in> fst ` set xs then None else map_of al k)"
  by (induction xs arbitrary: al) (auto simp: delete_conv')

lemma diffPositional_Nil_right:
  "diffPositional os [] = map (\<lambda>i. diff (arr_get os i) None) [0..<length os]"
  by (induction os) (simp_all add: upt_conv_Cons map_Suc_upt [symmetric] comp_def del: upt_Suc)

lemma diffPositional_Nil_left:
  "diffPositional [] ns = map (\<lambda>i. diff None (arr_get ns i)) [0..<length ns]"
  by (induction ns) (simp_all add: upt_conv_Cons map_Suc_upt [symmetric] comp_def del: upt_Suc)

lemma diffPositional_loop:
  "diffPositional os ns = map (\<lambda>i. diff (arr_get os i) (arr_get ns i)) [0..<max (length os) (length ns)]"
proof (induction os arbitrary: ns)
  case Nil
  then show ?case by (simp add: diffPositional_Nil_left)
next
  case (Cons oc ocs)
  then show ?case
    by (cases ns) (simp_all add: diffPositional_Nil_right upt_conv_Cons map_Suc_upt [symmetric] comp_def del: upt_Suc)
qed

lemma last_key_index_snoc:
  "last_key_index (cs @ [c]) k =
     (if key_of c = k then Some (length cs) else last_key_index cs k)"
proof -
  have "filter (\<lambda>i. key_of ((cs @ [c]) ! i) = k) [0..<length cs] =
        filter (\<lambda>i. key_of (cs ! i) = k) [0..<length cs]"
    by (rule filter_cong) (simp_all add: nth_append)
  then show ?thesis
    by (simp add: last_key_index_def Let_def)
qed

lemma last_key_index_SomeD:
  "last_key_index cs k = Some i \<Longrightarrow> i < length cs \<and> key_of (cs ! i) = k"
proof -
  assume a: "last_key_index cs k = Some i"
  define ixs where "ixs = filter (\<lambda>i. key_of (cs ! i) = k) [0..<length cs]"
  from a have "ixs \<noteq> []" "i = last ixs"
    by (auto simp: last_key_index_def ixs_def Let_def split: if_splits)
  then have "i \<in> set ixs" by simp
  then show ?thesis by (simp add: ixs_def)
qed

lemma oldKeyMap_snoc:
  "oldKeyMap (cs @ [c]) =
     (if nullish (key_of c) then oldKeyMap cs else jsmap_set (oldKeyMap cs) (key_of c) (c, length cs))"
  by (simp add: oldKeyMap_def enumerate_append_eq)

lemma oldKeyMap_lookup:
  "\<not> nullish k \<Longrightarrow> jsmap_get (oldKeyMap cs) k = map_option (\<lambda>i. (cs ! i, i)) (last_key_index cs k)"
proof (induction cs rule: rev_induct)
  case Nil
  then show ?case by (simp add: oldKeyMap_def last_key_index_def)
next
  case (snoc c cs)
  have nth: "last_key_index cs k = Some i \<Longrightarrow> (cs @ [c]) ! i = cs ! i" for i
    by (auto dest: last_key_index_SomeD simp: nth_append)
  show ?case
    using snoc by (cases "last_key_index cs k")
      (auto simp: oldKeyMap_snoc last_key_index_snoc jsmap_get_set nth)
qed

lemma keyedCount_all: "keyedCount cs = length cs \<longleftrightarrow> (\<forall>c\<in>set cs. \<not> nullish (key_of c))"
proof -
  have "length (filter (\<lambda>c. \<not> nullish (key_of c)) cs) = length cs \<longleftrightarrow>
        filter (\<lambda>c. \<not> nullish (key_of c)) cs = cs"
    by (metis length_filter_less less_irrefl filter_id_conv)
  then show ?thesis by (simp add: keyedCount_def filter_id_conv)
qed

lemma map_filter_oldIndex_keyed_entry:
  "List.map_filter oldIndex (map (keyed_entry olds news) js) =
     List.map_filter (\<lambda>j. last_key_index olds (key_of (news ! j))) js"
  by (induction js) (auto simp: keyed_entry_def map_filter_simps split: option.splits)

lemma diffChildren_keyed:
  assumes "\<forall>c\<in>set news. \<not> nullish (key_of c)"
  shows "diffChildren olds news =
           Keyed (map (keyed_entry olds news) [0..<length news] @ keyed_removed olds news)"
proof -
  let ?M0 = "map (\<lambda>(j, nc). case (if nullish (key_of nc) then None else jsmap_get (oldKeyMap olds) (key_of nc)) of
                 Some (oc, i) \<Rightarrow> KPatch (Some i) (Some j) (key_of nc) (diff (Some oc) (Some nc))
               | None \<Rightarrow> KPatch None (Some j) (key_of nc) (Some (CREATE (Some nc))))
             (enumerate 0 news)"
  have all: "keyedCount news = length news" using assms by (simp add: keyedCount_all)
  have lk: "j < length news \<Longrightarrow>
       (if nullish (key_of (news ! j)) then None else jsmap_get (oldKeyMap olds) (key_of (news ! j))) =
       map_option (\<lambda>i. (olds ! i, i)) (last_key_index olds (key_of (news ! j)))" for j
    using assms by (simp add: oldKeyMap_lookup)
  have m: "?M0 = map (keyed_entry olds news) [0..<length news]"
    unfolding map_enumerate_nth
    by (rule map_cong) (auto simp: lk keyed_entry_def split: option.splits)
  have "diffChildren olds news =
          Keyed (?M0 @ map (\<lambda>(i, c). KPatch (Some i) None (key_of c) (Some REMOVE))
                   (filter (\<lambda>(i, c). i \<notin> set (List.map_filter oldIndex ?M0)) (enumerate 0 olds)))"
    using all by (simp add: Let_def)
  then show ?thesis
    unfolding m
    by (simp add: keyed_removed_def keyed_used_def map_filter_oldIndex_keyed_entry enumerate0_map
        filter_map comp_def)
qed

lemma last_key_index_None: "last_key_index cs k = None \<longleftrightarrow> (\<forall>i<length cs. key_of (cs ! i) \<noteq> k)"
  by (auto simp: last_key_index_def Let_def filter_empty_conv)

lemma last_key_index_last:
  "last_key_index cs k = Some i \<Longrightarrow> i < i' \<Longrightarrow> i' < length cs \<Longrightarrow> key_of (cs ! i') \<noteq> k"
proof (induction cs arbitrary: i rule: rev_induct)
  case Nil
  then show ?case by simp
next
  case (snoc c cs)
  show ?case
  proof (cases "key_of c = k")
    case True
    with snoc.prems show ?thesis by (simp add: last_key_index_snoc)
  next
    case False
    with snoc.prems have "last_key_index cs k = Some i" by (simp add: last_key_index_snoc)
    with snoc False show ?thesis
      by (cases "i' < length cs") (auto simp: nth_append dest: last_key_index_SomeD)
  qed
qed

lemma newIndex_keyed_entry: "j < length news \<Longrightarrow> newIndex (keyed_entry olds news j) = Some j"
  by (simp add: keyed_entry_def split: option.splits)

lemma set_keyed_used: "set (keyed_used olds news) \<subseteq> {0..<length olds}"
  by (auto simp: keyed_used_def set_map_filter dest: last_key_index_SomeD)

lemma distinct_keyed_used:
  assumes "distinct (map key_of news)"
  shows "distinct (keyed_used olds news)"
  unfolding keyed_used_def
proof (rule distinct_map_filter_inj)
  fix x y i
  assume "x \<in> set [0..<length news]" "y \<in> set [0..<length news]"
    "last_key_index olds (key_of (news ! x)) = Some i" "last_key_index olds (key_of (news ! y)) = Some i"
  then have "key_of (news ! x) = key_of (news ! y)" "x < length news" "y < length news"
    by (auto dest!: last_key_index_SomeD)
  moreover from assms have "\<forall>i<length news. \<forall>j<length news. i \<noteq> j \<longrightarrow> key_of (news ! i) \<noteq> key_of (news ! j)"
    by (simp add: distinct_conv_nth)
  ultimately show "x = y" by blast
qed simp

lemma map_filter_oldIndex_removal:
  "List.map_filter oldIndex (map (\<lambda>i. KPatch (Some i) None (k i) (p i)) xs) = xs"
  by (induction xs) simp_all

lemma mset_used_complement:
  assumes "distinct us" "set us \<subseteq> {0..<m}"
  shows "mset (us @ filter (\<lambda>i. i \<notin> set us) [0..<m]) = mset [0..<m]"
proof -
  have "set us = set (filter (\<lambda>i. i \<in> set us) [0..<m])" using assms(2) by auto
  then have "mset us = mset (filter (\<lambda>i. i \<in> set us) [0..<m])"
    using assms(1) by (simp only: set_eq_iff_mset_eq_distinct distinct_filter distinct_upt)
  moreover have "mset [0..<m] = mset (filter (\<lambda>i. i \<in> set us) [0..<m]) + mset (filter (\<lambda>i. i \<notin> set us) [0..<m])"
    by (simp only: mset_filter multiset_partition [symmetric])
  ultimately show ?thesis by (simp only: mset_append)
qed

text \<open>C1: For a child list whose new children all carry distinct keys, the keyed
  reconciler reports every new index once, in order, and accounts for every old child exactly
  once: each old index is either matched (moved and patched) or removed.\<close>

theorem diffChildren_keyed_accounting:
  assumes keyed: "\<forall>c\<in>set news. \<not> nullish (key_of c)"
    and dist: "distinct (map key_of news)"
  shows "\<exists>ks. diffChildren olds news = Keyed ks \<and>
           List.map_filter newIndex ks = [0..<length news] \<and>
           mset (List.map_filter oldIndex ks) = mset [0..<length olds]"
proof -
  let ?us = "keyed_used olds news"
  have n1: "List.map_filter newIndex (map (keyed_entry olds news) [0..<length news]) = [0..<length news]"
    by (rule map_filter_map_Some [where r = id, simplified]) (simp add: newIndex_keyed_entry)
  have n2: "List.map_filter newIndex (keyed_removed olds news) = []"
    by (simp add: keyed_removed_def map_filter_map_None)
  have o1: "List.map_filter oldIndex (map (keyed_entry olds news) [0..<length news]) = ?us"
    by (simp add: map_filter_oldIndex_keyed_entry keyed_used_def)
  have o2: "List.map_filter oldIndex (keyed_removed olds news) = filter (\<lambda>i. i \<notin> set ?us) [0..<length olds]"
    by (simp add: keyed_removed_def map_filter_oldIndex_removal)
  have "mset (?us @ filter (\<lambda>i. i \<notin> set ?us) [0..<length olds]) = mset [0..<length olds]"
    using distinct_keyed_used [OF dist] set_keyed_used by (rule mset_used_complement)
  then show ?thesis
    using diffChildren_keyed [OF keyed] n1 n2 o1 o2 by simp
qed

lemma keyed_entry_cases:
  assumes "j < length news"
  shows "(\<exists>i. keyed_entry olds news j =
              KPatch (Some i) (Some j) (key_of (news ! j)) (diff (Some (olds ! i)) (Some (news ! j)))
            \<and> i < length olds \<and> key_of (olds ! i) = key_of (news ! j)
            \<and> (\<forall>i'. i < i' \<and> i' < length olds \<longrightarrow> key_of (olds ! i') \<noteq> key_of (news ! j)))
       \<or> (keyed_entry olds news j = KPatch None (Some j) (key_of (news ! j)) (Some (CREATE (Some (news ! j))))
            \<and> (\<forall>i<length olds. key_of (olds ! i) \<noteq> key_of (news ! j)))"
proof (cases "last_key_index olds (key_of (news ! j))")
  case None
  moreover from None have "\<forall>i<length olds. key_of (olds ! i) \<noteq> key_of (news ! j)"
    by (simp add: last_key_index_None)
  ultimately show ?thesis by (simp add: keyed_entry_def del: diff.simps)
next
  case (Some i)
  then show ?thesis
    by (auto simp: keyed_entry_def dest: last_key_index_SomeD last_key_index_last simp del: diff.simps)
qed

lemma keyed_removed_cases:
  assumes "kp \<in> set (keyed_removed olds news)"
  shows "\<exists>i. kp = KPatch (Some i) None (key_of (olds ! i)) (Some REMOVE) \<and> i < length olds
            \<and> (\<forall>j<length news. key_of (news ! j) = key_of (olds ! i) \<longrightarrow>
                  (\<exists>i'. i < i' \<and> i' < length olds \<and> key_of (olds ! i') = key_of (olds ! i)))"
proof -
  from assms obtain i where i: "kp = KPatch (Some i) None (key_of (olds ! i)) (Some REMOVE)" "i < length olds"
    and unused: "i \<notin> set (keyed_used olds news)"
    by (auto simp: keyed_removed_def)
  have "\<exists>i'. i < i' \<and> i' < length olds \<and> key_of (olds ! i') = key_of (olds ! i)"
    if j: "j < length news" "key_of (news ! j) = key_of (olds ! i)" for j
  proof -
    obtain i' where i': "last_key_index olds (key_of (news ! j)) = Some i'"
      using i(2) j(2) by (cases "last_key_index olds (key_of (news ! j))") (auto simp: last_key_index_None)
    with unused j(1) have "i' \<noteq> i" by (force simp: keyed_used_def set_map_filter)
    moreover have "\<not> i' < i" using last_key_index_last [OF i', of i] i(2) j(2) by auto
    moreover have "i' < length olds" "key_of (olds ! i') = key_of (news ! j)"
      using last_key_index_SomeD [OF i'] by auto
    ultimately show ?thesis using j(2) by (metis linorder_neqE_nat)
  qed
  with i show ?thesis by blast
qed

text \<open>C2: Every entry of the keyed reconciler is one of three: a match of the last old
  child carrying the new child's key, patched by the diff of the two; a creation of a new child
  whose key no old child carries; or the removal of an old child whose key is not matched
  (absent from the new children, or shadowed by a later old sibling with the same key).\<close>

theorem diffChildren_keyed_entries:
  assumes keyed: "\<forall>c\<in>set news. \<not> nullish (key_of c)"
    and res: "diffChildren olds news = Keyed ks" and kp: "kp \<in> set ks"
  shows "(\<exists>i j. kp = KPatch (Some i) (Some j) (key_of (news ! j)) (diff (Some (olds ! i)) (Some (news ! j)))
            \<and> i < length olds \<and> j < length news \<and> key_of (olds ! i) = key_of (news ! j)
            \<and> (\<forall>i'. i < i' \<and> i' < length olds \<longrightarrow> key_of (olds ! i') \<noteq> key_of (news ! j)))
       \<or> (\<exists>j. kp = KPatch None (Some j) (key_of (news ! j)) (Some (CREATE (Some (news ! j))))
            \<and> j < length news \<and> (\<forall>i<length olds. key_of (olds ! i) \<noteq> key_of (news ! j)))
       \<or> (\<exists>i. kp = KPatch (Some i) None (key_of (olds ! i)) (Some REMOVE) \<and> i < length olds
            \<and> (\<forall>j<length news. key_of (news ! j) = key_of (olds ! i) \<longrightarrow>
                  (\<exists>i'. i < i' \<and> i' < length olds \<and> key_of (olds ! i') = key_of (olds ! i))))"
proof -
  from res kp diffChildren_keyed [OF keyed]
  consider j where "j < length news" "kp = keyed_entry olds news j" | "kp \<in> set (keyed_removed olds news)"
    by auto
  then show ?thesis
  proof cases
    case 1
    then show ?thesis using keyed_entry_cases [of j news olds] by blast
  next
    case 2
    then show ?thesis using keyed_removed_cases by blast
  qed
qed

lemma diffProps_self:
  assumes "wf_obj p" "JNaN \<notin> set (map snd p)"
  shows "diffProps p p = []"
proof -
  have "\<forall>(k, v)\<in>set p. v \<noteq> JNaN" using assms(2) by force
  then have "\<forall>(k, v)\<in>set p. strict_eq (prop_get p k) v"
    using assms(1) by (auto simp: prop_get_mem strict_eq_def)
  moreover have "\<forall>(k, v)\<in>set p. prop_has p k" by (force simp: prop_has_def)
  ultimately show ?thesis by (auto simp: diffProps_def filter_empty_conv)
qed

lemma diffProps_delete:
  assumes "wf_obj p" "JNaN \<notin> set (map snd p)" "prop_has p k"
  shows "diffProps p (AList.delete k p) = [REMOVE_PROP k]"
proof -
  have "filter (\<lambda>(k', v). \<not> strict_eq (prop_get p k') v) (AList.delete k p) = []"
  proof -
    have "\<forall>(k', v)\<in>set (AList.delete k p). strict_eq (prop_get p k') v"
    proof (clarify)
      fix k' v assume m: "(k', v) \<in> set (AList.delete k p)"
      then have "(k', v) \<in> set p" by (auto simp: AList.delete_eq)
      with assms(1,2) show "strict_eq (prop_get p k') v"
        by (force simp: prop_get_mem strict_eq_def)
    qed
    then show ?thesis by (auto simp: filter_empty_conv)
  qed
  moreover have "filter (\<lambda>(k', v). \<not> prop_has (AList.delete k p) k') p = filter (\<lambda>(k', v). k' = k) p"
    by (rule filter_cong) (force simp: prop_has_def AList.delete_eq)+
  moreover have "map (\<lambda>(k', v). REMOVE_PROP k') (filter (\<lambda>(k', v). k' = k) p) = [REMOVE_PROP k]"
    using assms(1,3) unfolding wf_obj_def prop_has_def
    by (induction p) (force simp: filter_empty_conv split_def image_iff)+
  ultimately show ?thesis by (simp add: diffProps_def)
qed

lemma diffPositional_self: "diffPositional cs cs = map (\<lambda>c. diff (Some c) (Some c)) cs"
  by (induction cs) simp_all

lemma last_key_index_distinct:
  assumes "distinct (map key_of cs)" "j < length cs"
  shows "last_key_index cs (key_of (cs ! j)) = Some j"
proof -
  obtain i where i: "last_key_index cs (key_of (cs ! j)) = Some i"
    using assms(2) by (cases "last_key_index cs (key_of (cs ! j))") (auto simp: last_key_index_None)
  then have "i < length cs" "key_of (cs ! i) = key_of (cs ! j)" by (auto dest: last_key_index_SomeD)
  with assms have "i = j" by (simp add: distinct_conv_nth) (metis)
  with i show ?thesis by simp
qed

lemma keyed_used_self:
  assumes "distinct (map key_of cs)"
  shows "keyed_used cs cs = [0..<length cs]"
  unfolding keyed_used_def
  by (rule map_filter_Some_id) (simp add: last_key_index_distinct [OF assms])

lemma cps_noop_diffChildren_self:
  assumes IH: "\<forall>c\<in>set cs. patch_noop (diff (Some c) (Some c))"
    and keys: "distinct (map key_of (filter (\<lambda>c. \<not> nullish (key_of c)) cs))"
  shows "cps_noop (diffChildren cs cs)"
proof (cases "keyedCount cs = length cs")
  case True
  then have all: "\<forall>c\<in>set cs. \<not> nullish (key_of c)" by (simp add: keyedCount_all)
  then have d: "distinct (map key_of cs)" using keys by (simp add: filter_id_conv [THEN iffD2])
  have "kp_noop (keyed_entry cs cs j)" if "j < length cs" for j
    using IH that by (simp add: keyed_entry_def last_key_index_distinct [OF d] del: diff.simps)
  moreover have "keyed_removed cs cs = []" by (simp add: keyed_removed_def keyed_used_self [OF d])
  ultimately show ?thesis unfolding diffChildren_keyed [OF all] by (simp add: list_all_iff)
next
  case False
  then show ?thesis using IH by (simp add: diffPositional_self list_all_iff del: diff.simps)
qed

lemma cp_length_diffChildren: "length news \<le> cp_length (diffChildren olds news)"
proof (cases "keyedCount news = length news")
  case True
  then have all: "\<forall>c\<in>set news. \<not> nullish (key_of c)" by (simp add: keyedCount_all)
  show ?thesis unfolding diffChildren_keyed [OF all] by simp
next
  case False
  then show ?thesis by (simp add: diffPositional_loop del: diff.simps)
qed

text \<open>C3: Diffing a well-formed tree description against itself yields a patch that
  changes nothing, provided sibling keys are distinct and no attribute is NaN.\<close>

theorem diff_self_noop:
  "wf_vnode n \<Longrightarrow> wf_keys n \<Longrightarrow> nan_free n \<Longrightarrow> patch_noop (diff (Some n) (Some n))"
proof (induction n)
  case (VNode t p cs x)
  show ?case
  proof (cases "t = TEXT_TYPE")
    case True
    then show ?thesis by simp
  next
    case False
    have props: "diffProps p p = []" using VNode.prems by (intro diffProps_self) auto
    have cps: "cps_noop (diffChildren cs cs)"
      using VNode.IH VNode.prems by (intro cps_noop_diffChildren_self) auto
    show ?thesis using False props cps by (simp add: Let_def)
  qed
qed

text \<open>C4: Diffing an element that has children against itself never yields the absent
  patch: the positional or keyed child list is never empty, so the result is an \<open>UPDATE\<close>.\<close>

theorem diff_self_not_null:
  "vtype n \<noteq> TEXT_TYPE \<Longrightarrow> vchildren n \<noteq> [] \<Longrightarrow> diff (Some n) (Some n) \<noteq> None"
proof (cases n)
  case (VNode t p cs x)
  assume "vtype n \<noteq> TEXT_TYPE" "vchildren n \<noteq> []"
  moreover have "length cs \<le> cp_length (diffChildren cs cs)" by (rule cp_length_diffChildren)
  ultimately show ?thesis using VNode
    by (simp add: Let_def del: diffChildren.simps) (metis length_greater_0_conv less_le_trans)
qed

section \<open>Properties of the differ\<close>

text \<open>C5: Attribute patch completeness: applying the patches \<open>diffProps A B\<close> to the
  attribute bag \<open>A\<close> yields, key by key, the values that \<open>B\<close> reads.\<close>

theorem diffProps_complete:
  assumes "wf_obj A" "wf_obj B"
  shows "prop_get (apply_prop_patches (diffProps A B) A) k = prop_get B k"
proof -
  let ?S = "filter (\<lambda>(k, v). \<not> strict_eq (prop_get A k) v) B"
  let ?R = "filter (\<lambda>(k, v). \<not> prop_has B k) A"
  have eq: "map_of (apply_prop_patches (diffProps A B) A) k =
        (if k \<in> fst ` set ?R then None else (map_of A ++ map_of (rev ?S)) k)"
    by (simp add: apply_prop_patches_def diffProps_def map_of_fold_remove map_of_fold_set)
  show ?thesis
  proof (cases "prop_has B k")
    case False
    then have "k \<in> fst ` set ?R \<or> map_of A k = None" "map_of (rev ?S) k = None"
      by (auto simp: prop_has_def map_of_eq_None_iff image_iff)
    then have "map_of (apply_prop_patches (diffProps A B) A) k = None"
      using eq by (auto simp: map_add_def split: option.splits)
    then show ?thesis using prop_get_not_has [OF False] by (simp add: prop_get_def)
  next
    case True
    then obtain v where v: "map_of B k = Some v" by (auto simp: prop_has_iff_map_of)
    have notR: "k \<notin> fst ` set ?R" using True by auto
    show ?thesis
    proof (cases "strict_eq (prop_get A k) v")
      case True
      then have "map_of (rev ?S) k = None" using v assms(2)
        by (auto simp: map_of_eq_None_iff wf_obj_def dest: map_of_SomeD eq_key_imp_eq_value)
      then show ?thesis using True v notR eq
        by (auto simp: prop_get_def strict_eq_def map_add_def split: option.splits)
    next
      case False
      have d: "distinct (map fst (rev ?S))"
        using assms(2) by (simp add: wf_obj_def distinct_map_filter rev_map [symmetric])
      have "(k, v) \<in> set (rev ?S)" using False v by (auto dest: map_of_SomeD)
      with d have "map_of (rev ?S) k = Some v" by (rule map_of_is_SomeI)
      then show ?thesis using v notR eq by (auto simp: prop_get_def)
    qed
  qed
qed

text \<open>C6: When not every new child carries a key, \<open>diffChildren\<close> falls back to the
  positional comparison of the source's \<open>for\<close> loop: one patch per index up to the longer
  list, each the \<open>diff\<close> of the two children at that index (\<open>undefined\<close> past an end).\<close>

theorem diffChildren_positional:
  "keyedCount news \<noteq> length news \<Longrightarrow>
   diffChildren olds news =
     Positional (map (\<lambda>i. diff (arr_get olds i) (arr_get news i)) [0..<max (length olds) (length news)])"
  by (simp add: diffPositional_loop del: diff.simps)

text \<open>C7: Keyed stability (spec, testable properties): prepending a child with a fresh
  key to a keyed list with distinct keys yields exactly one creation, at index 0; every old
  child is matched to its old position and moved one place on, patched by its diff with
  itself, and no old child is removed.\<close>

theorem keyed_prepend_stability:
  assumes keyed: "\<forall>c\<in>set (z # olds). \<not> nullish (key_of c)"
    and dist: "distinct (map key_of (z # olds))"
  shows "diffChildren olds (z # olds) =
           Keyed (KPatch None (Some 0) (key_of z) (Some (CREATE (Some z)))
                  # map (\<lambda>i. KPatch (Some i) (Some (Suc i)) (key_of (olds ! i))
                                (diff (Some (olds ! i)) (Some (olds ! i)))) [0..<length olds])"
proof -
  have d: "distinct (map key_of olds)" using dist by simp
  have z: "last_key_index olds (key_of z) = None"
    using dist by (auto simp: last_key_index_None) (metis image_eqI nth_mem)
  have s: "i < length olds \<Longrightarrow> last_key_index olds (key_of (olds ! i)) = Some i" for i
    using last_key_index_distinct [OF d] .
  have up: "[0..<length (z # olds)] = 0 # map Suc [0..<length olds]"
    by (simp add: upt_conv_Cons map_Suc_upt del: upt_Suc)
  have e: "map (keyed_entry olds (z # olds)) [0..<length (z # olds)] =
           KPatch None (Some 0) (key_of z) (Some (CREATE (Some z)))
             # map (\<lambda>i. KPatch (Some i) (Some (Suc i)) (key_of (olds ! i))
                          (diff (Some (olds ! i)) (Some (olds ! i)))) [0..<length olds]"
    unfolding up by (simp add: keyed_entry_def z s del: diff.simps upt_Suc)
  have "List.map_filter (\<lambda>j. last_key_index olds (key_of ((z # olds) ! j))) (map Suc [0..<length olds]) =
        map id [0..<length olds]"
    by (rule map_filter_map_Some) (simp add: s)
  then have u: "keyed_used olds (z # olds) = [0..<length olds]"
    unfolding keyed_used_def up by (simp add: z del: upt_Suc)
  have r: "keyed_removed olds (z # olds) = []"
    by (simp add: keyed_removed_def u)
  show ?thesis
    using diffChildren_keyed [OF keyed] e r by simp
qed

text \<open>An attribute whose new value is \<open>undefined\<close> and that the old props lack is
  never set: \<open>diffProps\<close> compares \<open>oldProps[key] !== newProps[key]\<close>, which reads
  \<open>undefined\<close> for the missing key, so the patched attribute bag lacks the key although
  the new props have it.\<close>

theorem diffProps_undefined_not_set:
  "diffProps [] [(''disabled'', JUndefined)] = [] \<and>
   \<not> prop_has (apply_prop_patches (diffProps [] [(''disabled'', JUndefined)]) []) ''disabled'' \<and>
   prop_has [(''disabled'', JUndefined)] ''disabled''"
  by (simp add: diffProps_def strict_eq_def apply_prop_patches_def)

section \<open>Witnesses\<close>

theorem diffChildren_keyed_accounting_witness:
  "list_all (\<lambda>c. \<not> nullish (key_of c))
     [VNode ''li'' [(''key'', JStr ''b'')] [] None, VNode ''li'' [(''key'', JStr ''d'')] [] None] \<and>
   distinct (map key_of [VNode ''li'' [(''key'', JStr ''b'')] [] None, VNode ''li'' [(''key'', JStr ''d'')] [] None]) \<and>
   (\<exists>ks. diffChildren [VNode ''li'' [(''key'', JStr ''a'')] [] None, VNode ''li'' [(''key'', JStr ''b'')] [] None]
                      [VNode ''li'' [(''key'', JStr ''b'')] [] None, VNode ''li'' [(''key'', JStr ''d'')] [] None] = Keyed ks \<and>
        List.map_filter newIndex ks = [0..<length [VNode ''li'' [(''key'', JStr ''b'')] [] None, VNode ''li'' [(''key'', JStr ''d'')] [] None]] \<and>
        mset (List.map_filter oldIndex ks) = mset [0..<length [VNode ''li'' [(''key'', JStr ''a'')] [] None, VNode ''li'' [(''key'', JStr ''b'')] [] None]])"
proof -
  have h1: "\<forall>c\<in>set [VNode ''li'' [(''key'', JStr ''b'')] [] None, VNode ''li'' [(''key'', JStr ''d'')] [] None].
      \<not> nullish (key_of c)" by (simp add: key_of_def)
  have h2: "distinct (map key_of [VNode ''li'' [(''key'', JStr ''b'')] [] None, VNode ''li'' [(''key'', JStr ''d'')] [] None])"
    by (simp add: key_of_def)
  show ?thesis
    using h1 h2 diffChildren_keyed_accounting [OF h1 h2,
        of "[VNode ''li'' [(''key'', JStr ''a'')] [] None, VNode ''li'' [(''key'', JStr ''b'')] [] None]"]
    by (simp only: list_all_iff)
qed

theorem diffChildren_keyed_entries_witness:
  "list_all (\<lambda>c. \<not> nullish (key_of c)) [VNode ''li'' [(''key'', JStr ''a'')] [] None] \<and>
   diffChildren [VNode ''li'' [(''key'', JStr ''a'')] [] None] [VNode ''li'' [(''key'', JStr ''a'')] [] None] =
     Keyed [KPatch (Some 0) (Some 0) (JStr ''a'') None] \<and>
   KPatch (Some 0) (Some 0) (JStr ''a'') None \<in> set [KPatch (Some 0) (Some 0) (JStr ''a'') None] \<and>
   ((\<exists>i j. KPatch (Some 0) (Some 0) (JStr ''a'') None =
        KPatch (Some i) (Some j) (key_of ([VNode ''li'' [(''key'', JStr ''a'')] [] None] ! j))
          (diff (Some ([VNode ''li'' [(''key'', JStr ''a'')] [] None] ! i)) (Some ([VNode ''li'' [(''key'', JStr ''a'')] [] None] ! j)))
      \<and> i < length [VNode ''li'' [(''key'', JStr ''a'')] [] None] \<and> j < length [VNode ''li'' [(''key'', JStr ''a'')] [] None]
      \<and> key_of ([VNode ''li'' [(''key'', JStr ''a'')] [] None] ! i) = key_of ([VNode ''li'' [(''key'', JStr ''a'')] [] None] ! j)
      \<and> (\<forall>i'. i < i' \<and> i' < length [VNode ''li'' [(''key'', JStr ''a'')] [] None] \<longrightarrow>
            key_of ([VNode ''li'' [(''key'', JStr ''a'')] [] None] ! i') \<noteq> key_of ([VNode ''li'' [(''key'', JStr ''a'')] [] None] ! j)))
    \<or> (\<exists>j. KPatch (Some 0) (Some 0) (JStr ''a'') None =
          KPatch None (Some j) (key_of ([VNode ''li'' [(''key'', JStr ''a'')] [] None] ! j))
            (Some (CREATE (Some ([VNode ''li'' [(''key'', JStr ''a'')] [] None] ! j))))
        \<and> j < length [VNode ''li'' [(''key'', JStr ''a'')] [] None]
        \<and> (\<forall>i<length [VNode ''li'' [(''key'', JStr ''a'')] [] None].
              key_of ([VNode ''li'' [(''key'', JStr ''a'')] [] None] ! i) \<noteq> key_of ([VNode ''li'' [(''key'', JStr ''a'')] [] None] ! j)))
    \<or> (\<exists>i. KPatch (Some 0) (Some 0) (JStr ''a'') None =
          KPatch (Some i) None (key_of ([VNode ''li'' [(''key'', JStr ''a'')] [] None] ! i)) (Some REMOVE)
        \<and> i < length [VNode ''li'' [(''key'', JStr ''a'')] [] None]
        \<and> (\<forall>j<length [VNode ''li'' [(''key'', JStr ''a'')] [] None].
              key_of ([VNode ''li'' [(''key'', JStr ''a'')] [] None] ! j) = key_of ([VNode ''li'' [(''key'', JStr ''a'')] [] None] ! i) \<longrightarrow>
              (\<exists>i'. i < i' \<and> i' < length [VNode ''li'' [(''key'', JStr ''a'')] [] None] \<and>
                 key_of ([VNode ''li'' [(''key'', JStr ''a'')] [] None] ! i') = key_of ([VNode ''li'' [(''key'', JStr ''a'')] [] None] ! i)))))"
proof -
  have h1: "\<forall>c\<in>set [VNode ''li'' [(''key'', JStr ''a'')] [] None]. \<not> nullish (key_of c)"
    by (simp add: key_of_def)
  have h2: "diffChildren [VNode ''li'' [(''key'', JStr ''a'')] [] None] [VNode ''li'' [(''key'', JStr ''a'')] [] None] =
     Keyed [KPatch (Some 0) (Some 0) (JStr ''a'') None]"
    by (simp add: keyedCount_def key_of_def oldKeyMap_def diffProps_def js_simps)
  have h3: "KPatch (Some 0) (Some 0) (JStr ''a'') None \<in> set [KPatch (Some 0) (Some 0) (JStr ''a'') None]"
    by simp
  show ?thesis using h1 h2 h3 diffChildren_keyed_entries [OF h1 h2 h3] by (simp only: list_all_iff)
qed

theorem diff_self_noop_witness:
  "wf_vnode (VNode ''ul'' [] [VNode ''li'' [(''key'', JStr ''a'')] [createTextVNode (JStr ''x'')] None,
                             VNode ''li'' [(''key'', JStr ''b'')] [] None] None) \<and>
   wf_keys (VNode ''ul'' [] [VNode ''li'' [(''key'', JStr ''a'')] [createTextVNode (JStr ''x'')] None,
                             VNode ''li'' [(''key'', JStr ''b'')] [] None] None) \<and>
   nan_free (VNode ''ul'' [] [VNode ''li'' [(''key'', JStr ''a'')] [createTextVNode (JStr ''x'')] None,
                             VNode ''li'' [(''key'', JStr ''b'')] [] None] None) \<and>
   patch_noop (diff (Some (VNode ''ul'' [] [VNode ''li'' [(''key'', JStr ''a'')] [createTextVNode (JStr ''x'')] None,
                             VNode ''li'' [(''key'', JStr ''b'')] [] None] None))
                    (Some (VNode ''ul'' [] [VNode ''li'' [(''key'', JStr ''a'')] [createTextVNode (JStr ''x'')] None,
                             VNode ''li'' [(''key'', JStr ''b'')] [] None] None)))"
proof -
  have h1: "wf_vnode (VNode ''ul'' [] [VNode ''li'' [(''key'', JStr ''a'')] [createTextVNode (JStr ''x'')] None,
                             VNode ''li'' [(''key'', JStr ''b'')] [] None] None)"
    by (simp add: createTextVNode_def)
  have h2: "wf_keys (VNode ''ul'' [] [VNode ''li'' [(''key'', JStr ''a'')] [createTextVNode (JStr ''x'')] None,
                             VNode ''li'' [(''key'', JStr ''b'')] [] None] None)"
    by (simp add: createTextVNode_def key_of_def)
  have h3: "nan_free (VNode ''ul'' [] [VNode ''li'' [(''key'', JStr ''a'')] [createTextVNode (JStr ''x'')] None,
                             VNode ''li'' [(''key'', JStr ''b'')] [] None] None)"
    by (simp add: createTextVNode_def)
  show ?thesis using h1 h2 h3 diff_self_noop [OF h1 h2 h3] by blast
qed

theorem diff_self_not_null_witness:
  "vtype (VNode ''p'' [] [createTextVNode (JStr ''hi'')] None) \<noteq> TEXT_TYPE \<and>
   vchildren (VNode ''p'' [] [createTextVNode (JStr ''hi'')] None) \<noteq> [] \<and>
   diff (Some (VNode ''p'' [] [createTextVNode (JStr ''hi'')] None))
        (Some (VNode ''p'' [] [createTextVNode (JStr ''hi'')] None)) \<noteq> None"
proof -
  have h1: "vtype (VNode ''p'' [] [createTextVNode (JStr ''hi'')] None) \<noteq> TEXT_TYPE" by simp
  have h2: "vchildren (VNode ''p'' [] [createTextVNode (JStr ''hi'')] None) \<noteq> []" by simp
  show ?thesis using h1 h2 diff_self_not_null [OF h1 h2] by blast
qed

theorem diffProps_complete_witness:
  "wf_obj [(''className'', JStr [])] \<and> wf_obj [(''className'', JStr ''done''), (''id'', JNum 1)] \<and>
   prop_get (apply_prop_patches (diffProps [(''className'', JStr [])] [(''className'', JStr ''done''), (''id'', JNum 1)])
     [(''className'', JStr [])]) ''id'' = prop_get [(''className'', JStr ''done''), (''id'', JNum 1)] ''id''"
proof -
  have h1: "wf_obj [(''className'', JStr [])]" by simp
  have h2: "wf_obj [(''className'', JStr ''done''), (''id'', JNum 1)]" by simp
  show ?thesis using h1 h2 diffProps_complete [OF h1 h2, of "''id''"] by blast
qed

theorem diffChildren_positional_witness:
  "keyedCount [createTextVNode (JStr ''A''), createTextVNode (JStr ''B'')] \<noteq>
     length [createTextVNode (JStr ''A''), createTextVNode (JStr ''B'')] \<and>
   diffChildren [createTextVNode (JStr ''B'')] [createTextVNode (JStr ''A''), createTextVNode (JStr ''B'')] =
     Positional (map (\<lambda>i. diff (arr_get [createTextVNode (JStr ''B'')] i)
                                  (arr_get [createTextVNode (JStr ''A''), createTextVNode (JStr ''B'')] i))
       [0..<max (length [createTextVNode (JStr ''B'')]) (length [createTextVNode (JStr ''A''), createTextVNode (JStr ''B'')])])"
proof -
  have h: "keyedCount [createTextVNode (JStr ''A''), createTextVNode (JStr ''B'')] \<noteq>
     length [createTextVNode (JStr ''A''), createTextVNode (JStr ''B'')]"
    by (simp add: keyedCount_def key_of_def createTextVNode_def)
  show ?thesis using h diffChildren_positional [OF h, of "[createTextVNode (JStr ''B'')]"] by blast
qed

theorem keyed_prepend_stability_witness:
  "diffChildren [VNode ''li'' [(''key'', JStr ''a'')] [] None, VNode ''li'' [(''key'', JStr ''b'')] [] None]
     [VNode ''li'' [(''key'', JStr ''z'')] [] None, VNode ''li'' [(''key'', JStr ''a'')] [] None,
      VNode ''li'' [(''key'', JStr ''b'')] [] None] =
   Keyed [KPatch None (Some 0) (JStr ''z'') (Some (CREATE (Some (VNode ''li'' [(''key'', JStr ''z'')] [] None)))),
          KPatch (Some 0) (Some 1) (JStr ''a'') None, KPatch (Some 1) (Some 2) (JStr ''b'') None]"
proof -
  let ?z = "VNode ''li'' [(''key'', JStr ''z'')] [] None"
  let ?olds = "[VNode ''li'' [(''key'', JStr ''a'')] [] None, VNode ''li'' [(''key'', JStr ''b'')] [] None]"
  have h: "\<forall>c\<in>set (?z # ?olds). \<not> nullish (key_of c)" "distinct (map key_of (?z # ?olds))"
    by (simp_all add: key_of_def)
  from keyed_prepend_stability [OF h] show ?thesis
    by (simp add: key_of_def diffProps_def js_simps keyedCount_def upt_conv_Cons)
qed

end
