(* ===== verification/Diff0.thy ===== *)
theory Diff0
  imports Diff
begin

text \<open>
  The earlier, positional-only differ: the second copy of \<open>diff\<close>, \<open>diffProps\<close> and
  \<open>diffChildren\<close> in \<^verbatim>\<open>src/src/vdom.js\<close> (lines 151--204). Its child patches are a plain
  array, one patch per position up to the longer list, so a patch is the datatype
  \<open>patch0\<close> whose \<open>UPDATE0\<close> carries that array. The theorem of this theory relates it to
  the keyed differ of \<open>Diff\<close>: on descriptions that never offer a fully keyed non-empty
  child list, the keyed differ computes the same patches.
\<close>

datatype patch0 =
    CREATE0 "vnode option"
  | REMOVE0
  | REPLACE0 vnode
  | TEXT0 "string option"
  | UPDATE0 "prop_patch list" "patch0 option list"

definition diffProps0 :: "jsobj \<Rightarrow> jsobj \<Rightarrow> prop_patch list" where
  "diffProps0 oldProps newProps =
     map (\<lambda>(k, v). SET_PROP k v) (filter (\<lambda>(k, v). \<not> strict_eq (prop_get oldProps k) v) newProps)
     @ map (\<lambda>(k, v). REMOVE_PROP k) (filter (\<lambda>(k, v). \<not> prop_has newProps k) oldProps)"

function diff0 :: "vnode option \<Rightarrow> vnode option \<Rightarrow> patch0 option"
  and diffChildren0 :: "vnode list \<Rightarrow> vnode list \<Rightarrow> patch0 option list"
where
  "diff0 None n = Some (CREATE0 n)"
| "diff0 (Some old) None = Some REMOVE0"
| "diff0 (Some old) (Some new) =
     (if vtype old \<noteq> vtype new then Some (REPLACE0 new)
      else if vtype old = TEXT_TYPE then
        (if vtext old \<noteq> vtext new then Some (TEXT0 (vtext new)) else None)
      else
        (let propPatches = diffProps0 (vprops old) (vprops new);
             childPatches = diffChildren0 (vchildren old) (vchildren new)
         in if 0 < length propPatches \<or> 0 < length childPatches
            then Some (UPDATE0 propPatches childPatches) else None))"
| "diffChildren0 [] [] = []"
| "diffChildren0 (oc # ocs) [] = diff0 (Some oc) None # diffChildren0 ocs []"
| "diffChildren0 [] (nc # ncs) = diff0 None (Some nc) # diffChildren0 [] ncs"
| "diffChildren0 (oc # ocs) (nc # ncs) = diff0 (Some oc) (Some nc) # diffChildren0 ocs ncs"
  by pat_completeness auto
termination
  by (relation "measure (\<lambda>x. case x of
          Inl (a, b) \<Rightarrow> 2 * (vsize_opt a + vsize_opt b) + 1
        | Inr (os, ns) \<Rightarrow> 2 * (size_list size os + size_list size ns) + 2)")
     (auto, (case_tac old; case_tac new; simp)+)

text \<open>The patches of the keyed differ read as patches of the earlier one: a keyed child
  list becomes the array of its entries' patches.\<close>

primrec to0 :: "patch \<Rightarrow> patch0"
  and cps0 :: "child_patches \<Rightarrow> patch0 option list"
  and kp0 :: "keyed_patch \<Rightarrow> patch0 option" where
  "to0 (CREATE n) = CREATE0 n"
| "to0 REMOVE = REMOVE0"
| "to0 (REPLACE v) = REPLACE0 v"
| "to0 (TEXT t) = TEXT0 t"
| "to0 (UPDATE pps cps) = UPDATE0 pps (cps0 cps)"
| "cps0 (Positional ps) = map (map_option to0) ps"
| "cps0 (Keyed ks) = map kp0 ks"
| "kp0 (KPatch oi ni k p) = map_option to0 p"

text \<open>A description none of whose element nodes has a non-empty child list in which every
  child carries a key.\<close>

fun no_full_keys :: "vnode \<Rightarrow> bool" where
  "no_full_keys (VNode t p cs x) =
     ((cs = [] \<or> keyedCount cs \<noteq> length cs) \<and> list_all no_full_keys cs)"

definition ul0 :: "string list \<Rightarrow> vnode" where
  "ul0 xs = VNode ''ul'' [] (map (\<lambda>s. VNode ''li'' [] [VNode TEXT_TYPE [] [] (Some s)] None) xs) None"

section \<open>Lemmas on the earlier differ\<close>

lemma diffProps0_eq: "diffProps0 = diffProps"
  by (simp add: fun_eq_iff diffProps0_def diffProps_def)

lemma diffChildren0_Nil: "diffChildren0 olds [] = replicate (length olds) (Some REMOVE0)"
  by (induction olds) simp_all

lemma cps0_keyed_Nil: "cps0 (diffChildren olds []) = replicate (length olds) (Some REMOVE0)"
  by (simp add: keyedCount_def Let_def map_replicate_const enumerate_eq_zip split_def
      comp_def)

lemma length_cps0 [simp]: "length (cps0 c) = cp_length c"
  by (cases c) simp_all

lemma cps0_Nil_iff [simp]: "cps0 c = [] \<longleftrightarrow> cp_length c = 0"
  by (metis length_cps0 length_0_conv)

lemma diff0_diff:
  shows "pred_option no_full_keys b \<Longrightarrow> diff0 a b = map_option to0 (diff a b)"
    and "list_all no_full_keys news \<Longrightarrow>
         diffChildren0 olds news = map (map_option to0) (diffPositional olds news)"
proof (induction a b and olds news rule: diff0_diffChildren0.induct)
  case (3 old new)
  obtain t p cs x where new: "new = VNode t p cs x" by (cases new)
  from "3.prems" new have nf: "cs = [] \<or> keyedCount cs \<noteq> length cs" "list_all no_full_keys cs" by simp_all
  show ?case
  proof (cases "vtype old = vtype new \<and> vtype old \<noteq> TEXT_TYPE")
    case True
    have "diffChildren0 (vchildren old) cs = cps0 (diffChildren (vchildren old) cs)"
    proof (cases "cs = []")
      case True
      then show ?thesis by (simp add: diffChildren0_Nil cps0_keyed_Nil del: diffChildren.simps)
    next
      case False
      with nf have "keyedCount cs \<noteq> length cs" by simp
      then show ?thesis using "3.IH" True nf(2) new by (auto simp: Let_def diffProps0_eq)
    qed
    with True new show ?thesis by (simp add: Let_def diffProps0_eq del: diffChildren.simps)
  qed auto
qed auto

lemma length_diffChildren0_Nil: "length (diffChildren0 [] news) = length news"
  by (induction news) simp_all

lemma length_diffChildren0: "length (diffChildren0 olds news) = max (length olds) (length news)"
proof (induction olds arbitrary: news)
  case Nil
  then show ?case by (simp add: length_diffChildren0_Nil)
next
  case (Cons oc ocs)
  then show ?case by (cases news) (simp_all add: diffChildren0_Nil)
qed

lemma length_filter_enumerate:
  "length (filter (\<lambda>(i, c). i \<notin> S) (enumerate n xs)) = card ({n..<n + length xs} - S)"
proof (induction xs arbitrary: n)
  case Nil
  then show ?case by simp
next
  case (Cons x xs)
  have "{n..<n + length (x # xs)} - S = (if n \<in> S then {} else {n}) \<union> ({Suc n..<Suc n + length xs} - S)"
    by (auto simp: Suc_le_eq intro: le_neq_implies_less)
  then show ?case using Cons [of "Suc n"] by (simp add: card_insert_if)
qed

lemma length_map_filter_le: "length (List.map_filter f xs) \<le> length xs"
  by (induction xs) (auto split: option.splits)

section \<open>Properties of the earlier differ\<close>

text \<open>C25: The keyed differ refines the earlier positional one: on a new description none
  of whose element nodes offers a non-empty, fully keyed child list, \<open>diff\<close> computes
  the patches of the earlier \<open>diff\<close> (a keyed child list read as the array of its
  entries' patches), for every old description. The keyed path changes behaviour only where
  the new children all carry keys.\<close>

theorem diff_refines_diff0:
  "no_full_keys n \<Longrightarrow> diff0 a (Some n) = map_option to0 (diff a (Some n))"
  using diff0_diff(1) [of "Some n" a] by simp

text \<open>C26: Bounds on the child patch arrays: the earlier \<open>diffChildren\<close> returns one
  patch per position up to the longer list (\<open>maxLength\<close>); the keyed differ returns at
  least that many entries and at most one per old and one per new child.\<close>

theorem diffChildren_length_bounds:
  "length (diffChildren0 olds news) = max (length olds) (length news) \<and>
   max (length olds) (length news) \<le> cp_length (diffChildren olds news) \<and>
   cp_length (diffChildren olds news) \<le> length olds + length news"
proof (cases "keyedCount news = length news")
  case False
  then show ?thesis by (simp add: diffPositional_loop length_diffChildren0 del: diff.simps)
next
  case True
  let ?matched = "map (\<lambda>(j, nc).
                      case (if nullish (key_of nc) then None else jsmap_get (oldKeyMap olds) (key_of nc)) of
                        Some (oc, i) \<Rightarrow> KPatch (Some i) (Some j) (key_of nc) (diff (Some oc) (Some nc))
                      | None \<Rightarrow> KPatch None (Some j) (key_of nc) (Some (CREATE (Some nc))))
                 (enumerate 0 news)"
  let ?U = "set (List.map_filter oldIndex ?matched)"
  have r: "length (filter (\<lambda>(i, c). i \<notin> ?U) (enumerate 0 olds)) = card ({0..<length olds} - ?U)"
    using length_filter_enumerate [of ?U 0 olds] by simp
  have "card ?U \<le> length news"
    using card_length [of "List.map_filter oldIndex ?matched"] length_map_filter_le [of oldIndex ?matched]
    by simp
  then have lo: "length olds - length news \<le> card ({0..<length olds} - ?U)"
    using diff_card_le_card_Diff [of ?U "{0..<length olds}"] by simp
  have hi: "card ({0..<length olds} - ?U) \<le> length olds"
    using card_Diff_subset_Int [of ?U "{0..<length olds}"] card_mono [of "{0..<length olds}" "{0..<length olds} - ?U"]
    by auto
  show ?thesis using True r lo hi by (simp add: Let_def length_diffChildren0 del: diff.simps)
qed

theorem diff_refines_diff0_witness:
  "no_full_keys (ul0 [''a'', ''b'']) \<and>
   diff0 (Some (ul0 [''a''])) (Some (ul0 [''a'', ''b''])) =
     map_option to0 (diff (Some (ul0 [''a''])) (Some (ul0 [''a'', ''b''])))"
proof -
  have h: "no_full_keys (ul0 [''a'', ''b''])" by (simp add: ul0_def keyedCount_def key_of_def)
  show ?thesis using h diff_refines_diff0 [OF h, of "Some (ul0 [''a''])"] by simp
qed

end
