(* ===== verification/Warnings.thy ===== *)
theory Warnings
  imports Diff
begin

text \<open>
  The console warnings of \<open>diffChildren\<close> (\<^verbatim>\<open>src/src/vdom.js\<close>, lines 63--77): two
  module-level flags make each warning one-time for the life of the module. The warnings do
  not influence any patch, so they are modelled apart from \<open>diff\<close>: \<open>diag_children\<close>
  is the warning step one call of \<open>diffChildren\<close> performs, and \<open>diag_run\<close> the
  warning steps of a sequence of calls (in the order the differ makes them), with the
  console as a list of the warnings printed.
\<close>

record warn_state =
  warnedMixedKeys :: bool
  warnedNoKeys :: bool

datatype warning = MixedKeys | NoKeys

definition diag_children :: "vnode list \<Rightarrow> warn_state \<Rightarrow> warn_state \<times> warning list" where
  "diag_children newChildren w =
     (let kc = keyedCount newChildren;
          hasKeys = 0 < kc;
          allKeyed = (kc = length newChildren)
      in if hasKeys \<and> \<not> allKeyed \<and> \<not> warnedMixedKeys w then (w\<lparr>warnedMixedKeys := True\<rparr>, [MixedKeys])
         else if \<not> hasKeys \<and> 1 < length newChildren \<and> \<not> warnedNoKeys w then (w\<lparr>warnedNoKeys := True\<rparr>, [NoKeys])
         else (w, []))"

fun diag_run :: "vnode list list \<Rightarrow> warn_state \<Rightarrow> warn_state \<times> warning list" where
  "diag_run [] w = (w, [])"
| "diag_run (cs # css) w =
     (let (w1, out1) = diag_children cs w; (w2, out2) = diag_run css w1 in (w2, out1 @ out2))"

text \<open>The tutorial's first \<open>diffChildren\<close> (\<^verbatim>\<open>src/unnamed/part_000\<close>, lines
  53--64) warns the same way but without the flags, so on every call.\<close>

definition diag_children_draft :: "vnode list \<Rightarrow> warning list" where
  "diag_children_draft newChildren =
     (let kc = keyedCount newChildren;
          hasKeys = 0 < kc;
          allKeyed = (kc = length newChildren)
      in if hasKeys \<and> \<not> allKeyed then [MixedKeys]
         else if \<not> hasKeys \<and> 1 < length newChildren then [NoKeys]
         else [])"

text \<open>The module's initial flags.\<close>

definition warn_init :: warn_state where
  "warn_init = \<lparr>warnedMixedKeys = False, warnedNoKeys = False\<rparr>"

text \<open>A mixed child list: some but not all children carry a key.\<close>

definition mixed :: "vnode list \<Rightarrow> bool" where
  "mixed cs \<longleftrightarrow> 0 < keyedCount cs \<and> keyedCount cs \<noteq> length cs"

lemma diag_run_mixed:
  "count_list (snd (diag_run css w)) MixedKeys =
     (if \<not> warnedMixedKeys w \<and> (\<exists>cs\<in>set css. mixed cs) then 1 else 0)
   \<and> (warnedMixedKeys (fst (diag_run css w)) \<longleftrightarrow> warnedMixedKeys w \<or> (\<exists>cs\<in>set css. mixed cs))"
proof (induction css arbitrary: w)
  case Nil
  then show ?case by simp
next
  case (Cons cs css)
  have eq: "diag_run (cs # css) w =
      (fst (diag_run css (fst (diag_children cs w))),
       snd (diag_children cs w) @ snd (diag_run css (fst (diag_children cs w))))"
    by (simp add: split_def Let_def)
  show ?case using Cons.IH [of "fst (diag_children cs w)"] unfolding eq
    by (auto simp: diag_children_def mixed_def Let_def)
qed

lemma diag_children_draft_mixed:
  "count_list (concat (map diag_children_draft css)) MixedKeys = length (filter mixed css)"
  by (induction css) (auto simp: diag_children_draft_def mixed_def Let_def)

text \<open>C27: The mixed-keys warning is one-time: over any sequence of \<open>diffChildren\<close>
  calls from the module's initial flags it is printed exactly once when some call sees a
  mixed child list, and never otherwise.\<close>

theorem warnings_once:
  "count_list (snd (diag_run css warn_init)) MixedKeys = (if \<exists>cs\<in>set css. mixed cs then 1 else 0)"
  using diag_run_mixed [of css warn_init] by (simp add: warn_init_def)

end
