(* ===== verification/Reactive.thy ===== *)
theory Reactive
  imports Prelude
begin

text \<open>
  The reactive store and effect scheduler of \<^verbatim>\<open>src/unnamed/part_003\<close>
  (\<^verbatim>\<open>reactive.js\<close>): \<open>createReactive\<close>'s proxy (\<open>get\<close> tracks, \<open>set\<close>
  stores and triggers), \<open>track\<close>, \<open>trigger\<close>, \<open>effect\<close> and \<open>cleanup\<close>. The state
  that the source spreads over closures and a module variable is one record: the target
  object, the dependency map \<open>deps\<close> (key \<open>\<mapsto>\<close> subscribed effects, a \<open>Set\<close> in
  insertion order), each effect's \<open>deps\<close> array (the sets it was added to, named by their
  key, duplicates kept), the global \<open>currentEffect\<close> slot, the registered effect bodies,
  and a log of effect runs. An effect body is a small command language over the store
  (read, write, increment, branch on a read value). A write synchronously re-runs
  effects, which may write again: the cascade is given fuel, and running out of fuel is
  \<open>None\<close>.
\<close>

type_synonym eid = nat

datatype cmd =
    Get string
  | Put string jsval
  | Incr string
  | When string jsval "cmd list" "cmd list"

record rstate =
  target :: jsobj
  deps :: "string \<Rightarrow> eid list"
  edeps :: "eid \<Rightarrow> string list"
  current :: "eid option"
  body :: "eid \<Rightarrow> cmd list"
  next_eid :: eid
  runs :: "eid list"

text \<open>\<open>x + 1\<close> of \<open>state.count++\<close> on the JavaScript value read.\<close>

fun js_incr :: "jsval \<Rightarrow> jsval" where
  "js_incr (JNum i) = JNum (i + 1)"
| "js_incr (JBool b) = JNum (if b then 2 else 1)"
| "js_incr JNull = JNum 1"
| "js_incr (JStr s) = JStr (s @ ''1'')"
| "js_incr _ = JNaN"

text \<open>\<open>Set.prototype.add\<close> on an insertion-ordered set.\<close>

definition set_add :: "'a \<Rightarrow> 'a list \<Rightarrow> 'a list" where
  "set_add x xs = (if x \<in> set xs then xs else xs @ [x])"

definition track :: "string \<Rightarrow> rstate \<Rightarrow> rstate" where
  "track k st =
     (case current st of
        None \<Rightarrow> st
      | Some e \<Rightarrow> st\<lparr>deps := (deps st)(k := set_add e (deps st k)),
                     edeps := (edeps st)(e := edeps st e @ [k])\<rparr>)"

definition cleanup :: "eid \<Rightarrow> rstate \<Rightarrow> rstate" where
  "cleanup e st =
     st\<lparr>deps := fold (\<lambda>k d. d(k := removeAll e (d k))) (edeps st e) (deps st),
        edeps := (edeps st)(e := [])\<rparr>"

text \<open>The proxy's \<open>get\<close> trap: track, then read.\<close>

definition proxy_get :: "string \<Rightarrow> rstate \<Rightarrow> jsval \<times> rstate" where
  "proxy_get k st = (let st' = track k st in (prop_get (target st') k, st'))"

function (sequential) run_effect :: "nat \<Rightarrow> eid \<Rightarrow> rstate \<Rightarrow> rstate option"
  and exec :: "nat \<Rightarrow> cmd list \<Rightarrow> rstate \<Rightarrow> rstate option"
  and proxy_set :: "nat \<Rightarrow> string \<Rightarrow> jsval \<Rightarrow> rstate \<Rightarrow> rstate option"
  and trigger :: "nat \<Rightarrow> eid list \<Rightarrow> rstate \<Rightarrow> rstate option"
where
  "run_effect 0 e st = None"
| "run_effect (Suc n) e st =
     (let st1 = cleanup e st;
          prevEffect = current st1;
          st2 = st1\<lparr>current := Some e, runs := runs st1 @ [e]\<rparr>
      in map_option (\<lambda>st3. st3\<lparr>current := prevEffect\<rparr>) (exec n (body st2 e) st2))"
| "exec n [] st = Some st"
| "exec n (Get k # cs) st = exec n cs (snd (proxy_get k st))"
| "exec n (Put k v # cs) st =
     (case proxy_set n k v st of None \<Rightarrow> None | Some st' \<Rightarrow> exec n cs st')"
| "exec n (Incr k # cs) st =
     (let (v, st1) = proxy_get k st
      in case proxy_set n k (js_incr v) st1 of None \<Rightarrow> None | Some st' \<Rightarrow> exec n cs st')"
| "exec n (When k v a b # cs) st =
     (let (x, st1) = proxy_get k st in exec n ((if strict_eq x v then a else b) @ cs) st1)"
| "proxy_set n k v st =
     (let oldValue = prop_get (target st) k;
          st1 = st\<lparr>target := AList.update k v (target st)\<rparr>
      in if \<not> strict_eq oldValue v then trigger n (deps st1 k) st1 else Some st1)"
| "trigger n [] st = Some st"
| "trigger n (e # es) st =
     (if current st = Some e then trigger n es st
      else case run_effect n e st of None \<Rightarrow> None | Some st' \<Rightarrow> trigger n es st')"
  by pat_completeness auto
termination
  by (relation "measures
        [\<lambda>x. case x of Inl (Inl (n, _)) \<Rightarrow> n | Inl (Inr (n, _)) \<Rightarrow> n
                     | Inr (Inl (n, _)) \<Rightarrow> n | Inr (Inr (n, _)) \<Rightarrow> n,
         \<lambda>x. case x of Inl (Inl _) \<Rightarrow> 0 | Inl (Inr _) \<Rightarrow> 3 | Inr (Inl _) \<Rightarrow> 2 | Inr (Inr _) \<Rightarrow> 1,
         \<lambda>x. case x of Inl (Inl _) \<Rightarrow> 0 | Inl (Inr (_, cs, _)) \<Rightarrow> size_list size cs
                     | Inr (Inl _) \<Rightarrow> 0 | Inr (Inr (_, es, _)) \<Rightarrow> length es]")
     (auto simp: proxy_get_def split: prod.splits)

text \<open>\<open>effect(fn)\<close>: a fresh effect with an empty \<open>deps\<close> array, run once.\<close>

definition effect :: "nat \<Rightarrow> cmd list \<Rightarrow> rstate \<Rightarrow> (eid \<times> rstate) option" where
  "effect n fn st =
     (let e = next_eid st;
          st1 = st\<lparr>body := (body st)(e := fn), edeps := (edeps st)(e := []), next_eid := Suc e\<rparr>
      in map_option (\<lambda>st'. (e, st')) (run_effect n e st1))"

text \<open>\<open>createReactive(target)\<close>: a fresh store with an empty dependency map.\<close>

definition createReactive :: "jsobj \<Rightarrow> rstate" where
  "createReactive t =
     \<lparr>target = t, deps = (\<lambda>_. []), edeps = (\<lambda>_. []), current = None, body = (\<lambda>_. []),
      next_eid = 0, runs = []\<rparr>"

text \<open>
  The two indices of the dependency graph agree: an effect is in the subscriber set of a
  key exactly when that key is among the sets the effect records, and subscriber sets have
  no duplicates.
\<close>

definition dep_inv :: "rstate \<Rightarrow> bool" where
  "dep_inv st \<longleftrightarrow>
     (\<forall>k e. e \<in> set (deps st k) \<longleftrightarrow> k \<in> set (edeps st e)) \<and> (\<forall>k. distinct (deps st k))"

text \<open>An effect body that only reads: the effects of a rendering function.\<close>

fun readonly :: "cmd list \<Rightarrow> bool" where
  "readonly [] = True"
| "readonly (Get k # cs) = readonly cs"
| "readonly (Put k v # cs) = False"
| "readonly (Incr k # cs) = False"
| "readonly (When k v a b # cs) = (readonly a \<and> readonly b \<and> readonly cs)"

text \<open>The keys a read-only body reads, in order, against a target object.\<close>

fun reads :: "jsobj \<Rightarrow> cmd list \<Rightarrow> string list" where
  "reads t [] = []"
| "reads t (Get k # cs) = k # reads t cs"
| "reads t (Put k v # cs) = reads t cs"
| "reads t (Incr k # cs) = k # reads t cs"
| "reads t (When k v a b # cs) = k # reads t ((if strict_eq (prop_get t k) v then a else b) @ cs)"

text \<open>
  Two effects that write each other's input: effect 0 reads \<open>x\<close> and increments
  \<open>y\<close>, effect 1 reads \<open>y\<close> and increments \<open>x\<close>. \<open>cyc_state e st\<close> describes a
  state in which effect \<open>e\<close> is about to run with the other one subscribed to the key
  \<open>e\<close> writes.
\<close>

definition rkey :: "eid \<Rightarrow> string" where
  "rkey e = (if e = 0 then ''x'' else ''y'')"

definition wkey :: "eid \<Rightarrow> string" where
  "wkey e = (if e = 0 then ''y'' else ''x'')"

definition cyc_state :: "eid \<Rightarrow> rstate \<Rightarrow> bool" where
  "cyc_state e st \<longleftrightarrow>
     e \<le> 1 \<and> (\<forall>e'\<le>1. body st e' = [Get (rkey e'), Incr (wkey e')]) \<and> dep_inv st \<and>
     (\<forall>k. set (deps st k) \<subseteq> {0, 1}) \<and>
     (\<exists>i. prop_get (target st) ''x'' = JNum i) \<and> (\<exists>j. prop_get (target st) ''y'' = JNum j) \<and>
     1 - e \<in> set (deps st (wkey e))"

text \<open>
  The states application code can reach: a fresh store, then any sequence of top-level
  writes through the proxy and effect registrations that return.
\<close>

inductive reach :: "rstate \<Rightarrow> bool" where
  reach_create: "reach (createReactive t)"
| reach_set: "reach st \<Longrightarrow> proxy_set n k v st = Some st' \<Longrightarrow> reach st'"
| reach_effect: "reach st \<Longrightarrow> effect n fn st = Some (e, st') \<Longrightarrow> reach st'"

text \<open>What a run leaves alone: the current-effect slot (restored by the \<open>finally\<close>),
  the registered bodies and the id counter.\<close>

definition frame :: "rstate \<Rightarrow> rstate \<Rightarrow> bool" where
  "frame st st' \<longleftrightarrow> current st' = current st \<and> body st' = body st \<and> next_eid st' = next_eid st"

text \<open>Subscribers and the running effect are registered effects.\<close>

definition ids_ok :: "rstate \<Rightarrow> bool" where
  "ids_ok st \<longleftrightarrow> (\<forall>k. \<forall>e\<in>set (deps st k). e < next_eid st)"

definition cur_ok :: "rstate \<Rightarrow> bool" where
  "cur_ok st \<longleftrightarrow> (\<forall>e. current st = Some e \<longrightarrow> e < next_eid st)"

section \<open>Lemmas on the reactive store\<close>

lemma dep_inv_track: "dep_inv st \<Longrightarrow> dep_inv (track k st)"
  by (auto simp: dep_inv_def track_def set_add_def split: option.splits)

lemma fold_removeAll_deps:
  "fold (\<lambda>k d. d(k := removeAll e (d k))) ks d k' =
     (if k' \<in> set ks then removeAll e (d k') else d k')"
  by (induction ks arbitrary: d) (auto simp: removeAll_id)

lemma dep_inv_cleanup: "dep_inv st \<Longrightarrow> dep_inv (cleanup e st)"
  by (auto simp: dep_inv_def cleanup_def fold_removeAll_deps distinct_removeAll)

lemma dep_inv_upd [simp]:
  "dep_inv (st\<lparr>current := c\<rparr>) = dep_inv st"
  "dep_inv (st\<lparr>runs := r\<rparr>) = dep_inv st"
  "dep_inv (st\<lparr>target := t\<rparr>) = dep_inv st"
  by (simp_all add: dep_inv_def)

lemma dep_inv_proxy_get: "dep_inv st \<Longrightarrow> dep_inv (snd (proxy_get k st))"
  by (simp add: proxy_get_def Let_def dep_inv_track)

lemma dep_inv_steps:
  shows "run_effect n e st = Some st' \<Longrightarrow> dep_inv st \<Longrightarrow> dep_inv st'"
    and "exec n cs st = Some st' \<Longrightarrow> dep_inv st \<Longrightarrow> dep_inv st'"
    and "proxy_set n k v st = Some st' \<Longrightarrow> dep_inv st \<Longrightarrow> dep_inv st'"
    and "trigger n es st = Some st' \<Longrightarrow> dep_inv st \<Longrightarrow> dep_inv st'"
proof (induction n e st and n cs st and n k v st and n es st arbitrary: st' and st' and st' and st'
    rule: run_effect_exec_proxy_set_trigger.induct)
  case (2 n e st)
  then show ?case by (auto simp: Let_def dep_inv_cleanup)
next
  case (4 n k cs st)
  then show ?case by (simp add: dep_inv_proxy_get)
next
  case (5 n k v cs st)
  then show ?case by (auto split: option.splits)
next
  case (6 n k cs st)
  obtain v st1 where g: "proxy_get k st = (v, st1)" by fastforce
  have d1: "dep_inv st1" using dep_inv_proxy_get [OF "6.prems"(2), of k] g by simp
  from "6.prems"(1) g obtain st2 where s2: "proxy_set n k (js_incr v) st1 = Some st2"
    and e: "exec n cs st2 = Some st'"
    by (auto simp del: proxy_set.simps split: option.splits)
  have "dep_inv st2" using "6.IH"(1) [OF g [symmetric] refl s2 d1] .
  then show ?case using "6.IH"(2) [OF g [symmetric] refl s2 e] by blast
next
  case (7 n k v a b cs st)
  obtain x st1 where g: "proxy_get k st = (x, st1)" by fastforce
  have d1: "dep_inv st1" using dep_inv_proxy_get [OF "7.prems"(2), of k] g by simp
  from "7.prems"(1) g have "exec n ((if strict_eq x v then a else b) @ cs) st1 = Some st'" by simp
  then show ?case using "7.IH" [OF g [symmetric] refl] d1 by blast
next
  case (8 n k v st)
  let ?st1 = "st\<lparr>target := AList.update k v (target st)\<rparr>"
  show ?case
  proof (cases "strict_eq (prop_get (target st) k) v")
    case True
    with "8.prems" show ?thesis by (auto simp: Let_def)
  next
    case False
    with "8.prems"(1) have "trigger n (deps ?st1 k) ?st1 = Some st'" by (simp add: Let_def)
    then show ?thesis using "8.IH" [OF refl refl False] "8.prems"(2) by simp
  qed
next
  case (10 n e es st)
  show ?case
  proof (cases "current st = Some e")
    case True
    with "10.prems" "10.IH"(1) show ?thesis by simp
  next
    case False
    with "10.prems"(1) obtain st1 where r: "run_effect n e st = Some st1" and t: "trigger n es st1 = Some st'"
      by (auto split: option.splits)
    have "dep_inv st1" using "10.IH"(2) [OF False r "10.prems"(2)] .
    then show ?thesis using "10.IH"(3) [OF False r t] by blast
  qed
qed simp_all

lemma track_frame [simp]:
  "current (track k st) = current st" "body (track k st) = body st" "runs (track k st) = runs st"
  "target (track k st) = target st" "next_eid (track k st) = next_eid st"
  by (simp_all add: track_def split: option.splits)

lemma proxy_get_frame [simp]:
  "current (snd (proxy_get k st)) = current st" "body (snd (proxy_get k st)) = body st"
  "runs (snd (proxy_get k st)) = runs st" "target (snd (proxy_get k st)) = target st"
  "fst (proxy_get k st) = prop_get (target st) k"
  by (simp_all add: proxy_get_def Let_def)

lemma cleanup_frame [simp]:
  "current (cleanup e st) = current st" "body (cleanup e st) = body st" "runs (cleanup e st) = runs st"
  "target (cleanup e st) = target st" "next_eid (cleanup e st) = next_eid st"
  by (simp_all add: cleanup_def)

lemma readonly_append [simp]: "readonly (xs @ ys) \<longleftrightarrow> readonly xs \<and> readonly ys"
  by (induction xs rule: readonly.induct) auto

lemma size_when_branch:
  "size_list size ((if c then a else b) @ cs) < size_list size (When k v a b # cs)"
  by simp

lemma exec_readonly:
  "readonly cs \<Longrightarrow> \<exists>st'. exec n cs st = Some st' \<and> runs st' = runs st \<and> current st' = current st
     \<and> body st' = body st \<and> target st' = target st"
proof (induction "size_list size cs" arbitrary: cs st rule: less_induct)
  case less
  show ?case
  proof (cases cs)
    case Nil
    then show ?thesis by simp
  next
    case (Cons c cs')
    show ?thesis
    proof (cases c)
      case (Get k)
      with less.prems Cons have "readonly cs'" by simp
      with less.hyps [of cs' "snd (proxy_get k st)"] Cons Get show ?thesis by simp
    next
      case (When k v a b)
      let ?cs = "(if strict_eq (prop_get (target st) k) v then a else b) @ cs'"
      from less.prems Cons When have r: "readonly ?cs" by simp
      have sz: "size_list size ?cs < size_list size cs" using Cons When by simp
      from less.hyps [OF sz r, of "snd (proxy_get k st)"] Cons When show ?thesis
        by (simp add: split_beta)
    qed (use less.prems Cons in simp_all)
  qed
qed

lemma run_effect_readonly:
  "readonly (body st e) \<Longrightarrow> \<exists>st'. run_effect (Suc n) e st = Some st' \<and> runs st' = runs st @ [e]
     \<and> current st' = current st \<and> body st' = body st \<and> target st' = target st"
  using exec_readonly [of "body st e" n "(cleanup e st)\<lparr>current := Some e, runs := runs st @ [e]\<rparr>"]
  by (auto simp: Let_def)

lemma trigger_readonly:
  "\<forall>e. readonly (body st e) \<Longrightarrow> 0 < n \<Longrightarrow>
   \<exists>st'. trigger n es st = Some st' \<and> runs st' = runs st @ filter (\<lambda>e. current st \<noteq> Some e) es
     \<and> current st' = current st \<and> body st' = body st \<and> target st' = target st"
proof (induction es arbitrary: st)
  case Nil
  then show ?case by simp
next
  case (Cons e es)
  show ?case
  proof (cases "current st = Some e")
    case True
    then show ?thesis using Cons.IH [of st] Cons.prems by auto
  next
    case False
    from Cons.prems obtain m where n: "n = Suc m" by (cases n) auto
    obtain st1 where r: "run_effect n e st = Some st1" "runs st1 = runs st @ [e]"
      "current st1 = current st" "body st1 = body st" "target st1 = target st"
      using run_effect_readonly [of st e m] Cons.prems n by auto
    then show ?thesis using Cons.IH [of st1] Cons.prems False by auto
  qed
qed

lemma proxy_set_readonly:
  assumes "0 < n" and "\<forall>e. readonly (body st e)"
  shows "\<exists>st'. proxy_set n k v st = Some st' \<and> target st' = AList.update k v (target st) \<and>
           runs st' = runs st @ (if strict_eq (prop_get (target st) k) v then []
                                 else filter (\<lambda>e. current st \<noteq> Some e) (deps st k))"
proof (cases "strict_eq (prop_get (target st) k) v")
  case True
  then show ?thesis by simp
next
  case False
  let ?st1 = "st\<lparr>target := AList.update k v (target st)\<rparr>"
  obtain st' where "trigger n (deps st k) ?st1 = Some st'"
    "runs st' = runs st @ filter (\<lambda>e. current st \<noteq> Some e) (deps st k)" "target st' = target ?st1"
    using trigger_readonly [of ?st1 n "deps st k"] assms by auto
  with False show ?thesis by (simp add: Let_def)
qed

text \<open>C10: A write through the proxy stores the value and, when it differs from the old one
  under \<open>!==\<close>, re-runs every subscriber of the key except the running effect,
  once each, in subscription order; a write of the same value runs nothing. Stated for
  stores whose effects only read, so that the cascade stops after one level.\<close>

theorem proxy_set_readers:
  assumes "0 < n" and "\<forall>e. readonly (body st e)"
  shows "\<exists>st'. proxy_set n k v st = Some st' \<and> target st' = AList.update k v (target st) \<and>
           runs st' = runs st @ (if strict_eq (prop_get (target st) k) v then []
                                 else filter (\<lambda>e. current st \<noteq> Some e) (deps st k))"
  using assms by (rule proxy_set_readonly)

lemma track_deps:
  "current st = Some e \<Longrightarrow>
   e' \<in> set (deps (track k st) k') \<longleftrightarrow> e' \<in> set (deps st k') \<or> (e' = e \<and> k' = k)"
  by (auto simp: track_def set_add_def)

lemma exec_readonly_deps:
  "readonly cs \<Longrightarrow> current st = Some e \<Longrightarrow> exec n cs st = Some st' \<Longrightarrow>
   e' \<in> set (deps st' k') \<longleftrightarrow> e' \<in> set (deps st k') \<or> (e' = e \<and> k' \<in> set (reads (target st) cs))"
proof (induction "size_list size cs" arbitrary: cs st rule: less_induct)
  case less
  show ?case
  proof (cases cs)
    case Nil
    with less.prems show ?thesis by simp
  next
    case (Cons c cs')
    show ?thesis
    proof (cases c)
      case (Get k)
      with less.prems Cons have "readonly cs'" "exec n cs' (track k st) = Some st'"
        by (simp_all add: proxy_get_def Let_def)
      with less.hyps [of cs' "track k st"] less.prems Cons Get show ?thesis
        by (auto simp: track_deps)
    next
      case (When k v a b)
      let ?cs = "(if strict_eq (prop_get (target st) k) v then a else b) @ cs'"
      from less.prems Cons When have r: "readonly ?cs" "exec n ?cs (track k st) = Some st'"
        by (simp_all add: proxy_get_def Let_def)
      have sz: "size_list size ?cs < size_list size cs" using Cons When by simp
      from less.hyps [OF sz r(1), of "track k st"] r(2) less.prems Cons When show ?thesis
        by (auto simp: track_deps)
    qed (use less.prems Cons in simp_all)
  qed
qed

lemma cleanup_deps:
  "dep_inv st \<Longrightarrow> e' \<in> set (deps (cleanup e st) k) \<longleftrightarrow> e' \<in> set (deps st k) \<and> e' \<noteq> e"
  by (auto simp: cleanup_def fold_removeAll_deps dep_inv_def)

text \<open>C11: Re-running an effect first drops all its subscriptions (\<open>cleanup\<close>) and
  then subscribes it to exactly the keys its body reads on this run: after the run, the
  effect is subscribed to a key iff this run read the key; other effects are untouched.\<close>

theorem run_effect_subscriptions:
  assumes "dep_inv st" and "readonly (body st e)" and "run_effect (Suc n) e st = Some st'"
  shows "e' \<in> set (deps st' k) \<longleftrightarrow>
           (if e' = e then k \<in> set (reads (target st) (body st e)) else e' \<in> set (deps st k))"
proof -
  let ?st2 = "(cleanup e st)\<lparr>current := Some e, runs := runs st @ [e]\<rparr>"
  from assms(3) obtain st3 where ex: "exec n (body st e) ?st2 = Some st3" and st': "st' = st3\<lparr>current := current st\<rparr>"
    by (auto simp: Let_def)
  have "e' \<in> set (deps st3 k) \<longleftrightarrow> e' \<in> set (deps ?st2 k) \<or> (e' = e \<and> k \<in> set (reads (target st) (body st e)))"
    using exec_readonly_deps [OF assms(2) _ ex] by simp
  then show ?thesis using st' cleanup_deps [OF assms(1)] by auto
qed

lemma trigger_stuck:
  "set es \<subseteq> {c, e} \<Longrightarrow> e \<in> set es \<Longrightarrow> e \<noteq> c \<Longrightarrow> current st = Some c \<Longrightarrow>
   run_effect n e st = None \<Longrightarrow> trigger n es st = None"
  by (induction es) auto

lemma cyc_run_None: "cyc_state e st \<Longrightarrow> run_effect n e st = None"
proof (induction n arbitrary: e st)
  case 0
  then show ?case by simp
next
  case (Suc m)
  let ?o = "1 - e"
  let ?st2 = "(cleanup e st)\<lparr>current := Some e, runs := runs st @ [e]\<rparr>"
  let ?st3 = "track (wkey e) (track (rkey e) ?st2)"
  from Suc.prems obtain j where j: "prop_get (target st) (wkey e) = JNum j" and e1: "e \<le> 1"
    by (cases "e = 0") (auto simp: cyc_state_def wkey_def)
  let ?st4 = "?st3\<lparr>target := AList.update (wkey e) (JNum (j + 1)) (target ?st3)\<rparr>"
  have body: "body st e = [Get (rkey e), Incr (wkey e)]" using Suc.prems by (auto simp: cyc_state_def)
  have inv: "dep_inv st" using Suc.prems by (simp add: cyc_state_def)
  have sub: "\<forall>k. set (deps st k) \<subseteq> {0, 1}" using Suc.prems by (simp add: cyc_state_def)
  have run: "run_effect (Suc m) e st = map_option (\<lambda>st5. st5\<lparr>current := current st\<rparr>) (trigger m (deps ?st4 (wkey e)) ?st4)"
    using j body by (simp add: Let_def proxy_get_def strict_eq_def split: option.split)
  have dep_st4: "e' \<in> set (deps ?st4 k) \<longleftrightarrow> (e' \<in> set (deps st k) \<and> e' \<noteq> e) \<or> (e' = e \<and> (k = rkey e \<or> k = wkey e))" for e' k
    using cleanup_deps [OF inv] by (auto simp: track_def set_add_def)
  have "cyc_state ?o ?st4"
    unfolding cyc_state_def
  proof (intro conjI)
    show "\<forall>e'\<le>1. body ?st4 e' = [Get (rkey e'), Incr (wkey e')]" using Suc.prems by (simp add: cyc_state_def)
    show "dep_inv ?st4" using inv by (simp add: dep_inv_cleanup dep_inv_track)
    show "\<forall>k. set (deps ?st4 k) \<subseteq> {0, 1}"
    proof (intro allI subsetI)
      fix k t
      assume "t \<in> set (deps ?st4 k)"
      then have "t \<in> set (deps st k) \<or> t = e" using dep_st4 by blast
      then show "t \<in> {0, 1}" using sub e1 by auto
    qed
    show "\<exists>i. prop_get (target ?st4) ''x'' = JNum i" "\<exists>j. prop_get (target ?st4) ''y'' = JNum j"
      using Suc.prems j by (auto simp: cyc_state_def wkey_def update_conv' prop_get_def)
    show "1 - ?o \<in> set (deps ?st4 (wkey ?o))" using e1 dep_st4 by (auto simp: rkey_def wkey_def)
  qed (use e1 in simp)
  then have none: "run_effect m ?o ?st4 = None" by (rule Suc.IH)
  have "trigger m (deps ?st4 (wkey e)) ?st4 = None"
  proof (rule trigger_stuck [where c = e])
    show "set (deps ?st4 (wkey e)) \<subseteq> {e, ?o}"
    proof
      fix t
      assume "t \<in> set (deps ?st4 (wkey e))"
      then have "t \<in> set (deps st (wkey e)) \<or> t = e" using dep_st4 by blast
      then have "t \<in> {0, 1} \<or> t = e" using sub by blast
      then show "t \<in> {e, ?o}" using e1 by auto
    qed
    show "?o \<in> set (deps ?st4 (wkey e))" using Suc.prems e1 dep_st4 by (auto simp: cyc_state_def)
    show "?o \<noteq> e" using e1 by arith
  qed (use none in auto)
  then show ?case using run by simp
qed

lemma frame_trans: "frame a b \<Longrightarrow> frame b c \<Longrightarrow> frame a c"
  by (simp add: frame_def)

lemma frame_steps:
  shows "run_effect n e st = Some st' \<Longrightarrow> frame st st'"
    and "exec n cs st = Some st' \<Longrightarrow> frame st st'"
    and "proxy_set n k v st = Some st' \<Longrightarrow> frame st st'"
    and "trigger n es st = Some st' \<Longrightarrow> frame st st'"
proof (induction n e st and n cs st and n k v st and n es st arbitrary: st' and st' and st' and st'
    rule: run_effect_exec_proxy_set_trigger.induct)
  case (2 n e st)
  let ?st2 = "(cleanup e st)\<lparr>current := Some e, runs := runs st @ [e]\<rparr>"
  from "2.prems" obtain st3 where ex: "exec n (body st e) ?st2 = Some st3"
    and st': "st' = st3\<lparr>current := current st\<rparr>"
    by (auto simp: Let_def)
  have "frame ?st2 st3" using "2.IH" [OF refl refl refl] ex by simp
  then show ?case using st' by (simp add: frame_def)
next
  case (4 n k cs st)
  then have "frame (snd (proxy_get k st)) st'" by simp
  then show ?case by (simp add: frame_def proxy_get_def Let_def)
next
  case (5 n k v cs st)
  from "5.prems" obtain st1 where s1: "proxy_set n k v st = Some st1" and e: "exec n cs st1 = Some st'"
    by (auto simp del: proxy_set.simps split: option.splits)
  show ?case using frame_trans [OF "5.IH"(1) [OF s1] "5.IH"(2) [OF s1 e]] .
next
  case (6 n k cs st)
  obtain v st1 where g: "proxy_get k st = (v, st1)" by fastforce
  from "6.prems" g obtain st2 where s2: "proxy_set n k (js_incr v) st1 = Some st2"
    and e: "exec n cs st2 = Some st'"
    by (auto simp del: proxy_set.simps split: option.splits)
  have "frame st st1" using g by (auto simp: proxy_get_def Let_def frame_def)
  then show ?case
    using frame_trans [OF "6.IH"(1) [OF g [symmetric] refl s2] "6.IH"(2) [OF g [symmetric] refl s2 e]]
    by (rule frame_trans)
next
  case (7 n k v a b cs st)
  obtain x st1 where g: "proxy_get k st = (x, st1)" by fastforce
  from "7.prems" g have "exec n ((if strict_eq x v then a else b) @ cs) st1 = Some st'" by simp
  then have "frame st1 st'" using "7.IH" [OF g [symmetric] refl] by blast
  moreover have "frame st st1" using g by (auto simp: proxy_get_def Let_def frame_def)
  ultimately show ?case by (blast intro: frame_trans)
next
  case (8 n k v st)
  let ?st1 = "st\<lparr>target := AList.update k v (target st)\<rparr>"
  show ?case
  proof (cases "strict_eq (prop_get (target st) k) v")
    case True
    with "8.prems" show ?thesis by (auto simp: Let_def frame_def)
  next
    case False
    with "8.prems" have "trigger n (deps ?st1 k) ?st1 = Some st'" by (simp add: Let_def)
    then have "frame ?st1 st'" using "8.IH" [OF refl refl False] by simp
    then show ?thesis by (simp add: frame_def)
  qed
next
  case (10 n e es st)
  show ?case
  proof (cases "current st = Some e")
    case True
    with "10.prems" "10.IH"(1) show ?thesis by simp
  next
    case False
    with "10.prems" obtain st1 where r: "run_effect n e st = Some st1" and t: "trigger n es st1 = Some st'"
      by (auto split: option.splits)
    show ?thesis using frame_trans [OF "10.IH"(2) [OF False r] "10.IH"(3) [OF False r t]] .
  qed
qed (simp_all add: frame_def)

lemma all_le_1: "(\<forall>e'\<le>(1::nat). P e') \<longleftrightarrow> P 0 \<and> P 1"
  using le_Suc_eq by auto

lemma dep_inv_createReactive: "dep_inv (createReactive t)"
  by (simp add: dep_inv_def createReactive_def)

lemma ids_ok_track: "ids_ok st \<Longrightarrow> cur_ok st \<Longrightarrow> ids_ok (track k st)"
  by (auto simp: ids_ok_def cur_ok_def track_def set_add_def split: option.splits)

lemma ids_ok_cleanup: "ids_ok st \<Longrightarrow> ids_ok (cleanup e st)"
  by (auto simp: ids_ok_def cleanup_def fold_removeAll_deps)

lemma ok_upd [simp]:
  "ids_ok (st\<lparr>current := c\<rparr>) = ids_ok st" "ids_ok (st\<lparr>runs := r\<rparr>) = ids_ok st"
  "ids_ok (st\<lparr>target := t\<rparr>) = ids_ok st"
  "cur_ok (st\<lparr>runs := r\<rparr>) = cur_ok st" "cur_ok (st\<lparr>target := t\<rparr>) = cur_ok st"
  by (simp_all add: ids_ok_def cur_ok_def)

lemma cur_ok_track [simp]: "cur_ok (track k st) = cur_ok st"
  by (simp add: cur_ok_def track_def split: option.splits)

lemma frame_cur_ok: "frame st st' \<Longrightarrow> cur_ok st' = cur_ok st"
  by (simp add: frame_def cur_ok_def)

lemma ids_steps:
  shows "run_effect n e st = Some st' \<Longrightarrow> e < next_eid st \<Longrightarrow> ids_ok st \<Longrightarrow> ids_ok st'"
    and "exec n cs st = Some st' \<Longrightarrow> cur_ok st \<Longrightarrow> ids_ok st \<Longrightarrow> ids_ok st'"
    and "proxy_set n k v st = Some st' \<Longrightarrow> cur_ok st \<Longrightarrow> ids_ok st \<Longrightarrow> ids_ok st'"
    and "trigger n es st = Some st' \<Longrightarrow> (\<forall>e\<in>set es. e < next_eid st) \<Longrightarrow> cur_ok st \<Longrightarrow> ids_ok st \<Longrightarrow> ids_ok st'"
proof (induction n e st and n cs st and n k v st and n es st arbitrary: st' and st' and st' and st'
    rule: run_effect_exec_proxy_set_trigger.induct)
  case (2 n e st)
  let ?st2 = "(cleanup e st)\<lparr>current := Some e, runs := runs st @ [e]\<rparr>"
  from "2.prems" obtain st3 where ex: "exec n (body st e) ?st2 = Some st3"
    and st': "st' = st3\<lparr>current := current st\<rparr>"
    by (auto simp: Let_def)
  have "cur_ok ?st2" using "2.prems"(2) by (simp add: cur_ok_def)
  moreover have "ids_ok ?st2" using "2.prems"(3) by (simp add: ids_ok_cleanup)
  ultimately have "ids_ok st3" using "2.IH" [OF refl refl refl] ex by simp
  then show ?case using st' by simp
next
  case (4 n k cs st)
  then show ?case by (simp add: proxy_get_def Let_def ids_ok_track)
next
  case (5 n k v cs st)
  from "5.prems" obtain st1 where s1: "proxy_set n k v st = Some st1" and e: "exec n cs st1 = Some st'"
    by (auto simp del: proxy_set.simps split: option.splits)
  have "ids_ok st1" using "5.IH"(1) [OF s1] "5.prems" by blast
  moreover have "cur_ok st1" using frame_cur_ok [OF frame_steps(3) [OF s1]] "5.prems" by simp
  ultimately show ?case using "5.IH"(2) [OF s1 e] by blast
next
  case (6 n k cs st)
  obtain v st1 where g: "proxy_get k st = (v, st1)" by fastforce
  from "6.prems" g obtain st2 where s2: "proxy_set n k (js_incr v) st1 = Some st2"
    and e: "exec n cs st2 = Some st'"
    by (auto simp del: proxy_set.simps split: option.splits)
  have st1: "st1 = track k st" using g by (simp add: proxy_get_def Let_def)
  have "ids_ok st1" "cur_ok st1" using "6.prems" st1 by (simp_all add: ids_ok_track)
  then have "ids_ok st2" "cur_ok st2"
    using "6.IH"(1) [OF g [symmetric] refl s2] frame_cur_ok [OF frame_steps(3) [OF s2]] by auto
  then show ?case using "6.IH"(2) [OF g [symmetric] refl s2 e] by blast
next
  case (7 n k v a b cs st)
  obtain x st1 where g: "proxy_get k st = (x, st1)" by fastforce
  have st1: "st1 = track k st" using g by (simp add: proxy_get_def Let_def)
  from "7.prems" g have "exec n ((if strict_eq x v then a else b) @ cs) st1 = Some st'" by simp
  moreover have "ids_ok st1" "cur_ok st1" using "7.prems" st1 by (simp_all add: ids_ok_track)
  ultimately show ?case using "7.IH" [OF g [symmetric] refl] by blast
next
  case (8 n k v st)
  let ?st1 = "st\<lparr>target := AList.update k v (target st)\<rparr>"
  show ?case
  proof (cases "strict_eq (prop_get (target st) k) v")
    case True
    with "8.prems" show ?thesis by (auto simp: Let_def)
  next
    case False
    with "8.prems"(1) have "trigger n (deps ?st1 k) ?st1 = Some st'" by (simp add: Let_def)
    moreover have "\<forall>e\<in>set (deps ?st1 k). e < next_eid ?st1" using "8.prems"(3) by (simp add: ids_ok_def)
    ultimately show ?thesis using "8.IH" [OF refl refl False] "8.prems"(2,3) by simp
  qed
next
  case (10 n e es st)
  show ?case
  proof (cases "current st = Some e")
    case True
    with "10.prems" "10.IH"(1) show ?thesis by simp
  next
    case False
    with "10.prems"(1) obtain st1 where r: "run_effect n e st = Some st1" and t: "trigger n es st1 = Some st'"
      by (auto split: option.splits)
    have fr: "frame st st1" by (rule frame_steps(1) [OF r])
    have "ids_ok st1" using "10.IH"(2) [OF False r] "10.prems" by simp
    moreover have "cur_ok st1" "\<forall>e\<in>set es. e < next_eid st1"
      using fr "10.prems" by (auto simp: frame_def cur_ok_def)
    ultimately show ?thesis using "10.IH"(3) [OF False r t] by blast
  qed
qed simp_all

lemma register_inv:
  fixes fn :: "cmd list"
  assumes "dep_inv st" and "ids_ok st"
  defines "st1 \<equiv> st\<lparr>body := (body st)(next_eid st := fn), edeps := (edeps st)(next_eid st := []),
                        next_eid := Suc (next_eid st)\<rparr>"
  shows "dep_inv st1" and "ids_ok st1" and "next_eid st < next_eid st1"
proof -
  have "next_eid st \<notin> set (deps st k)" for k using assms(2) by (auto simp: ids_ok_def)
  then show "dep_inv st1" using assms(1) by (auto simp: dep_inv_def st1_def)
  show "ids_ok st1" using assms(2) by (auto simp: ids_ok_def st1_def less_Suc_eq)
qed (simp add: st1_def)

text \<open>C9: In every state reachable from \<open>createReactive\<close> by top-level writes and
  effect registrations, the subscriber sets and the effects' \<open>deps\<close> arrays describe
  the same relation, subscriber sets hold no duplicates, only registered effects are
  subscribed, and no effect is marked as running.\<close>

theorem reach_inv: "reach st \<Longrightarrow> dep_inv st \<and> ids_ok st \<and> current st = None"
proof (induction rule: reach.induct)
  case (reach_create t)
  then show ?case by (simp add: createReactive_def dep_inv_def ids_ok_def)
next
  case (reach_set st n k v st')
  have "cur_ok st" using reach_set.IH by (simp add: cur_ok_def)
  then show ?case using reach_set dep_inv_steps(3) ids_steps(3) frame_steps(3) [OF reach_set.hyps(2)]
    by (auto simp: frame_def)
next
  case (reach_effect st n fn e st')
  let ?st1 = "st\<lparr>body := (body st)(next_eid st := fn), edeps := (edeps st)(next_eid st := []),
                next_eid := Suc (next_eid st)\<rparr>"
  from reach_effect.hyps(2) have r: "run_effect n (next_eid st) ?st1 = Some st'"
    by (auto simp: effect_def Let_def)
  note i = register_inv [OF conjunct1 [OF reach_effect.IH] conjunct1 [OF conjunct2 [OF reach_effect.IH]], of fn]
  have "dep_inv st'" using dep_inv_steps(1) [OF r i(1)] .
  moreover have "ids_ok st'" using ids_steps(1) [OF r] i by simp
  moreover have "current st' = None" using frame_steps(1) [OF r] reach_effect.IH by (simp add: frame_def)
  ultimately show ?case by blast
qed

section \<open>Properties of the reactive store\<close>

lemma effect_readonly:
  assumes "readonly fn"
  shows "\<exists>st'. effect (Suc n) fn st = Some (next_eid st, st') \<and> runs st' = runs st @ [next_eid st]
           \<and> current st' = current st \<and> body st' (next_eid st) = fn \<and> target st' = target st"
proof -
  let ?st1 = "st\<lparr>body := (body st)(next_eid st := fn), edeps := (edeps st)(next_eid st := []),
                next_eid := Suc (next_eid st)\<rparr>"
  obtain st' where "run_effect (Suc n) (next_eid st) ?st1 = Some st'" "runs st' = runs ?st1 @ [next_eid st]"
    "current st' = current ?st1" "body st' = body ?st1" "target st' = target ?st1"
    using run_effect_readonly [of ?st1 "next_eid st" n] assms by auto
  then show ?thesis by (simp add: effect_def Let_def del: run_effect.simps)
qed

text \<open>C12: Registering an effect whose body only reads returns with any fuel of at
  least one: the effect gets the next id, runs exactly once, and the store's target is
  unchanged.\<close>

theorem effect_readonly_returns:
  assumes "readonly fn"
  shows "\<exists>st'. effect (Suc n) fn st = Some (next_eid st, st') \<and> runs st' = runs st @ [next_eid st]
           \<and> current st' = current st \<and> body st' (next_eid st) = fn \<and> target st' = target st"
  using assms by (rule effect_readonly)

text \<open>C13: Two effects that each read one key and increment the other never settle:
  once the first is registered, registering the second does not return for any fuel.
  The \<open>effect !== currentEffect\<close> guard of \<open>trigger\<close> only stops an effect from
  re-running itself, not a cycle through another effect.\<close>

theorem mutual_increment_diverges:
  "\<forall>n. case effect 1 [Get ''x'', Incr ''y''] (createReactive [(''x'', JNum 0), (''y'', JNum 0)]) of
         None \<Rightarrow> False
       | Some (_, st) \<Rightarrow> effect n [Get ''y'', Incr ''x''] st = None"
proof
  fix n
  let ?S = "\<lparr>target = [(''x'', JNum 0), (''y'', JNum 1)],
             deps = (\<lambda>_. [])(''x'' := [0], ''y'' := [0]), edeps = (\<lambda>_. [])(0 := [''x'', ''y'']),
             current = None, body = (\<lambda>_. [])(0 := [Get ''x'', Incr ''y'']), next_eid = 1, runs = [0]\<rparr>"
  have first: "effect 1 [Get ''x'', Incr ''y''] (createReactive [(''x'', JNum 0), (''y'', JNum 0)]) = Some (0, ?S)"
    by (simp add: effect_def createReactive_def cleanup_def proxy_get_def track_def set_add_def
        strict_eq_def fun_eq_iff)
  let ?S1 = "?S\<lparr>body := (body ?S)(1 := [Get ''y'', Incr ''x'']), edeps := (edeps ?S)(1 := []), next_eid := 2\<rparr>"
  have "cyc_state 1 ?S1"
    unfolding cyc_state_def all_le_1
    by (auto simp: rkey_def wkey_def dep_inv_def)
  then have "run_effect n 1 ?S1 = None" by (rule cyc_run_None)
  then show "case effect 1 [Get ''x'', Incr ''y''] (createReactive [(''x'', JNum 0), (''y'', JNum 0)]) of
         None \<Rightarrow> False | Some (_, st) \<Rightarrow> effect n [Get ''y'', Incr ''x''] st = None"
    unfolding first by (simp add: effect_def numeral_2_eq_2)
qed

text \<open>C14: An effect that increments a key it reads (\<open>state.count++\<close> inside the
  effect) runs once and returns with any fuel: registered from the top level on a key no
  effect subscribes to, its own write does not re-run it, because \<open>trigger\<close> skips the
  running effect. The effect ends subscribed to the key, the key holds the incremented value
  and no effect is current.\<close>

theorem self_increment_runs_once:
  assumes "current st = None" and "deps st k = []"
  shows "\<exists>st'. effect (Suc n) [Incr k] st = Some (next_eid st, st')
           \<and> runs st' = runs st @ [next_eid st] \<and> current st' = None \<and> deps st' k = [next_eid st]
           \<and> target st' = AList.update k (js_incr (prop_get (target st) k)) (target st)"
  using assms
  by (simp add: effect_def cleanup_def proxy_get_def track_def set_add_def Let_def)

section \<open>Witnesses\<close>

theorem reach_inv_witness:
  "case effect 2 [Get ''x''] (createReactive [(''x'', JNum 0)]) of None \<Rightarrow> False
     | Some (e, st) \<Rightarrow> reach st \<and> dep_inv st \<and> ids_ok st \<and> current st = None"
proof -
  obtain e st where h: "effect 2 [Get ''x''] (createReactive [(''x'', JNum 0)]) = Some (e, st)"
    by (cases "effect 2 [Get ''x''] (createReactive [(''x'', JNum 0)])")
       (auto simp: eval_nat_numeral effect_def createReactive_def cleanup_def proxy_get_def
         track_def set_add_def)
  have r: "reach st" by (rule reach_effect [OF reach_create h])
  show ?thesis using h r reach_inv [OF r] by simp
qed

theorem proxy_set_readers_witness:
  "\<exists>st'. proxy_set 1 ''x'' (JNum 1)
      \<lparr>target = [(''x'', JNum 0)], deps = (\<lambda>_. [])(''x'' := [0]), edeps = (\<lambda>_. [])(0 := [''x'']),
       current = None, body = (\<lambda>_. [])(0 := [Get ''x'']), next_eid = 1, runs = [0]\<rparr> = Some st'
      \<and> target st' = [(''x'', JNum 1)] \<and> runs st' = [0, 0]"
proof -
  let ?S = "\<lparr>target = [(''x'', JNum 0)], deps = (\<lambda>_. [])(''x'' := [0]), edeps = (\<lambda>_. [])(0 := [''x'']),
       current = None, body = (\<lambda>_. [])(0 := [Get ''x'']), next_eid = 1, runs = [0]\<rparr>"
  have "0 < (1::nat)" "\<forall>e. readonly (body ?S e)" by simp_all
  then show ?thesis using proxy_set_readers [of 1 ?S "''x''" "JNum 1"] by (simp add: strict_eq_def)
qed

theorem run_effect_subscriptions_witness:
  "\<exists>st'. run_effect (Suc 0) 0
      \<lparr>target = [(''flag'', JBool False), (''x'', JNum 0)], deps = (\<lambda>_. [])(''flag'' := [0], ''x'' := [0]),
       edeps = (\<lambda>_. [])(0 := [''flag'', ''x'']), current = None,
       body = (\<lambda>_. [])(0 := [When ''flag'' (JBool True) [Get ''x''] []]), next_eid = 1, runs = [0]\<rparr> = Some st'
      \<and> 0 \<in> set (deps st' ''flag'') \<and> 0 \<notin> set (deps st' ''x'')"
proof -
  let ?S = "\<lparr>target = [(''flag'', JBool False), (''x'', JNum 0)], deps = (\<lambda>_. [])(''flag'' := [0], ''x'' := [0]),
       edeps = (\<lambda>_. [])(0 := [''flag'', ''x'']), current = None,
       body = (\<lambda>_. [])(0 := [When ''flag'' (JBool True) [Get ''x''] []]), next_eid = 1, runs = [0]\<rparr>"
  have inv: "dep_inv ?S" by (auto simp: dep_inv_def)
  have ro: "readonly (body ?S 0)" by simp
  obtain st' where r: "run_effect (Suc 0) 0 ?S = Some st'"
    by (simp add: cleanup_def proxy_get_def track_def set_add_def strict_eq_def)
  have "0 \<in> set (deps st' ''flag'')" "0 \<notin> set (deps st' ''x'')"
    using run_effect_subscriptions [OF inv ro r, of 0 "''flag''"] run_effect_subscriptions [OF inv ro r, of 0 "''x''"]
    by (simp_all add: strict_eq_def)
  then show ?thesis using r by blast
qed

theorem effect_readonly_returns_witness:
  "\<exists>st'. effect (Suc 0) [Get ''x''] (createReactive [(''x'', JNum 0)]) = Some (0, st') \<and> runs st' = [0]
     \<and> current st' = None \<and> body st' 0 = [Get ''x''] \<and> target st' = [(''x'', JNum 0)]"
proof -
  have "readonly [Get ''x'']" by simp
  then show ?thesis using effect_readonly_returns [of "[Get ''x'']" 0 "createReactive [(''x'', JNum 0)]"]
    by (simp add: createReactive_def)
qed


theorem self_increment_runs_once_witness:
  "\<exists>st'. effect 3 [Incr ''count''] (createReactive [(''count'', JNum 0)]) = Some (0, st')
     \<and> runs st' = [0] \<and> current st' = None \<and> deps st' ''count'' = [0]
     \<and> target st' = [(''count'', JNum 1)]"
proof -
  have "current (createReactive [(''count'', JNum 0)]) = None" "deps (createReactive [(''count'', JNum 0)]) ''count'' = []"
    by (simp_all add: createReactive_def)
  from self_increment_runs_once [OF this, of 2] show ?thesis
    by (simp add: createReactive_def eval_nat_numeral)
qed

end
