(* ===== verification/Dom.thy ===== *)
theory Dom
  imports Prelude
begin

text \<open>
  The host document the patcher of \<^verbatim>\<open>src/src/render.js\<close> mutates: the part of the
  DOM standard it calls, as an explicit store. Nodes are identities (\<open>nid\<close>, allocated
  from a counter as a heap allocates addresses); each node has a kind (a text node with
  its data, or an element with its local name), an attribute list, the IDL properties
  the patcher assigns (\<open>value\<close>), the declarations assigned to its \<open>style\<close>, its
  event listeners, its child list and its parent. The store also holds the JavaScript
  object heap the patcher reads style objects from, and the \<open>eventHandlers\<close>
  \<open>WeakMap\<close> of render.js (element \<open>\<mapsto>\<close> handler object). Every DOM method that
  can throw returns \<open>Inl\<close> of the exception.
\<close>

type_synonym nid = nat

text \<open>A node is a text node, an element of the HTML namespace created by
  \<open>document.createElement\<close> (its local name, lower-cased), or an element created by
  \<open>createElementNS\<close> (its namespace and qualified name, as given).\<close>

datatype dnode = DText string | DElem string | DElemNS string string

datatype dom_error = InvalidCharacterError | NotFoundError | HierarchyRequestError | TypeError

record dom =
  nkind :: "nid \<Rightarrow> dnode option"
  nattrs :: "nid \<Rightarrow> (string \<times> string) list"
  nprops :: "nid \<Rightarrow> (string \<times> jsval) list"
  nstyle :: "nid \<Rightarrow> (string \<times> jsval) list"
  nlisteners :: "nid \<Rightarrow> (string \<times> jsval) list"
  nkids :: "nid \<Rightarrow> nid list"
  nparent :: "nid \<Rightarrow> nid option"
  nfresh :: nid
  jsheap :: "nat \<Rightarrow> jsobj"
  evhandlers :: "nid \<Rightarrow> jsobj option"

type_synonym 'a dres = "dom_error + ('a \<times> dom)"

section \<open>Names\<close>

text \<open>
  \<open>createElement\<close> and \<open>setAttribute\<close> throw \<open>InvalidCharacterError\<close> on a name
  that is not an XML \<open>Name\<close>: a letter, \<open>_\<close> or \<open>:\<close> first, then letters, digits,
  \<open>-\<close>, \<open>.\<close>, \<open>_\<close> and \<open>:\<close>. Non-ASCII characters are accepted, as the
  production accepts the letters of other scripts. HTML documents lower-case both names.
\<close>

definition name_start :: "char \<Rightarrow> bool" where
  "name_start c = (let n = of_char c :: nat in
     (65 \<le> n \<and> n \<le> 90) \<or> (97 \<le> n \<and> n \<le> 122) \<or> n = 95 \<or> n = 58 \<or> 128 \<le> n)"

definition name_char :: "char \<Rightarrow> bool" where
  "name_char c = (let n = of_char c :: nat in name_start c \<or> (48 \<le> n \<and> n \<le> 57) \<or> n = 45 \<or> n = 46)"

definition valid_name :: "string \<Rightarrow> bool" where
  "valid_name s = (case s of [] \<Rightarrow> False | c # cs \<Rightarrow> name_start c \<and> list_all name_char cs)"

section \<open>Node creation\<close>

text \<open>A fresh node: the next identity, with no attributes, listeners, children or parent.\<close>

definition alloc :: "dnode \<Rightarrow> dom \<Rightarrow> nid \<times> dom" where
  "alloc k d =
     (let n = nfresh d
      in (n, d\<lparr>nkind := (nkind d)(n := Some k), nattrs := (nattrs d)(n := []),
               nprops := (nprops d)(n := []), nstyle := (nstyle d)(n := []),
               nlisteners := (nlisteners d)(n := []), nkids := (nkids d)(n := []),
               nparent := (nparent d)(n := None), evhandlers := (evhandlers d)(n := None),
               nfresh := Suc n\<rparr>))"

definition createTextNode :: "string \<Rightarrow> dom \<Rightarrow> nid \<times> dom" where
  "createTextNode s d = alloc (DText s) d"

definition dom_createElement :: "string \<Rightarrow> dom \<Rightarrow> nid dres" where
  "dom_createElement t d =
     (if valid_name t then Inr (alloc (DElem (toLowerCase t)) d) else Inl InvalidCharacterError)"

section \<open>Tree mutation\<close>

definition is_elem :: "dom \<Rightarrow> nid \<Rightarrow> bool" where
  "is_elem d n = (case nkind d n of Some (DElem _) \<Rightarrow> True | Some (DElemNS _ _) \<Rightarrow> True | _ \<Rightarrow> False)"

definition is_html_elem :: "dom \<Rightarrow> nid \<Rightarrow> bool" where
  "is_html_elem d n = (case nkind d n of Some (DElem _) \<Rightarrow> True | _ \<Rightarrow> False)"

definition XHTML_NS :: string where "XHTML_NS = ''http://www.w3.org/1999/xhtml''"
definition SVG_NS :: string where "SVG_NS = ''http://www.w3.org/2000/svg''"
definition MATHML_NS :: string where "MATHML_NS = ''http://www.w3.org/1998/Math/MathML''"
definition XLINK_NS :: string where "XLINK_NS = ''http://www.w3.org/1999/xlink''"

text \<open>\<open>createElementNS(ns, qualifiedName)\<close>: the name keeps its case. The namespace
  constraints on prefixes are not modelled; the name must be a \<open>Name\<close>.\<close>

definition dom_createElementNS :: "string \<Rightarrow> string \<Rightarrow> dom \<Rightarrow> nid dres" where
  "dom_createElementNS ns t d =
     (if valid_name t then Inr (alloc (DElemNS ns t) d) else Inl InvalidCharacterError)"

text \<open>\<open>node.namespaceURI\<close> (\<open>None\<close> for text nodes, whose property is
  \<open>undefined\<close>) and \<open>element.tagName\<close>, upper-cased for HTML elements.\<close>

definition namespaceURI :: "dom \<Rightarrow> nid \<Rightarrow> string option" where
  "namespaceURI d n =
     (case nkind d n of Some (DElem _) \<Rightarrow> Some XHTML_NS | Some (DElemNS ns _) \<Rightarrow> Some ns | _ \<Rightarrow> None)"

definition tagName :: "dom \<Rightarrow> nid \<Rightarrow> string option" where
  "tagName d n =
     (case nkind d n of Some (DElem t) \<Rightarrow> Some (toUpperCase t) | Some (DElemNS _ t) \<Rightarrow> Some t | _ \<Rightarrow> None)"

text \<open>Detach a node from its parent, if it has one (the first step of every insertion).\<close>

definition detach :: "nid \<Rightarrow> dom \<Rightarrow> dom" where
  "detach c d =
     (case nparent d c of
        None \<Rightarrow> d
      | Some p \<Rightarrow> d\<lparr>nkids := (nkids d)(p := remove1 c (nkids d p)), nparent := (nparent d)(c := None)\<rparr>)"

text \<open>
  \<open>insertBefore(node, child)\<close>, \<open>child = None\<close> for \<open>null\<close> (append): the reference
  child must be a child of the parent (\<open>NotFoundError\<close>), and only elements take children
  (\<open>HierarchyRequestError\<close>). The node is moved: detached from its old parent first. The
  ancestor check is not modelled: the patcher inserts fresh nodes or existing children.
\<close>

fun insert_before :: "nid list \<Rightarrow> nid \<Rightarrow> nid \<Rightarrow> nid list" where
  "insert_before [] r c = [c]"
| "insert_before (x # xs) r c = (if x = r then c # x # xs else x # insert_before xs r c)"

definition insertBefore :: "nid \<Rightarrow> nid \<Rightarrow> nid option \<Rightarrow> dom \<Rightarrow> dom_error + dom" where
  "insertBefore p c r d =
     (if \<not> is_elem d p then Inl HierarchyRequestError
      else case r of
        None \<Rightarrow> let d1 = detach c d
                in Inr (d1\<lparr>nkids := (nkids d1)(p := nkids d1 p @ [c]), nparent := (nparent d1)(c := Some p)\<rparr>)
      | Some r' \<Rightarrow>
          if r' \<notin> set (nkids d p) then Inl NotFoundError
          else if r' = c then Inr d
          else let d1 = detach c d
               in Inr (d1\<lparr>nkids := (nkids d1)(p := insert_before (nkids d1 p) r' c),
                          nparent := (nparent d1)(c := Some p)\<rparr>))"

definition appendChild :: "nid \<Rightarrow> nid \<Rightarrow> dom \<Rightarrow> dom_error + dom" where
  "appendChild p c d = insertBefore p c None d"

definition removeChild :: "nid \<Rightarrow> nid \<Rightarrow> dom \<Rightarrow> dom_error + dom" where
  "removeChild p c d =
     (if c \<notin> set (nkids d p) then Inl NotFoundError
      else Inr (d\<lparr>nkids := (nkids d)(p := remove1 c (nkids d p)), nparent := (nparent d)(c := None)\<rparr>))"

text \<open>\<open>replaceChild(node, child)\<close>: the node takes the child's place.\<close>

definition replaceChild :: "nid \<Rightarrow> nid \<Rightarrow> nid \<Rightarrow> dom \<Rightarrow> dom_error + dom" where
  "replaceChild p c old d =
     (if \<not> is_elem d p then Inl HierarchyRequestError
      else if old \<notin> set (nkids d p) then Inl NotFoundError
      else if c = old then Inr d
      else let d1 = detach c d
           in Inr (d1\<lparr>nkids := (nkids d1)(p := map (\<lambda>x. if x = old then c else x) (nkids d1 p)),
                      nparent := ((nparent d1)(old := None))(c := Some p)\<rparr>))"

text \<open>
  \<open>node.textContent = s\<close>: a text node's data becomes \<open>s\<close>; an element loses all its
  children and, unless \<open>s\<close> is empty, gets one fresh text node holding \<open>s\<close>.
\<close>

definition set_textContent :: "nid \<Rightarrow> string \<Rightarrow> dom \<Rightarrow> dom" where
  "set_textContent n s d =
     (case nkind d n of
        Some (DText _) \<Rightarrow> d\<lparr>nkind := (nkind d)(n := Some (DText s))\<rparr>
      | _ \<Rightarrow>
          let d1 = d\<lparr>nparent := (\<lambda>x. if x \<in> set (nkids d n) then None else nparent d x),
                     nkids := (nkids d)(n := [])\<rparr>
          in if s = [] then d1
             else let (t, d2) = createTextNode s d1
                  in d2\<lparr>nkids := (nkids d2)(n := [t]), nparent := (nparent d2)(t := Some n)\<rparr>)"

section \<open>Attributes, properties and listeners\<close>

text \<open>\<open>setAttribute\<close> and \<open>removeAttribute\<close> exist on elements only; calling them on a
  text node throws \<open>TypeError\<close> (not a function).\<close>

definition setAttribute :: "nid \<Rightarrow> string \<Rightarrow> string \<Rightarrow> dom \<Rightarrow> dom_error + dom" where
  "setAttribute n k v d =
     (if \<not> is_elem d n then Inl TypeError
      else if \<not> valid_name k then Inl InvalidCharacterError
      else let k' = (if is_html_elem d n then toLowerCase k else k)
           in Inr (d\<lparr>nattrs := (nattrs d)(n := AList.update k' v (nattrs d n))\<rparr>))"

text \<open>Removing the \<open>style\<close> attribute also clears the declarations it reflects.\<close>

definition removeAttribute :: "nid \<Rightarrow> string \<Rightarrow> dom \<Rightarrow> dom_error + dom" where
  "removeAttribute n k d =
     (if \<not> is_elem d n then Inl TypeError
      else let k' = (if is_html_elem d n then toLowerCase k else k);
               d1 = d\<lparr>nattrs := (nattrs d)(n := AList.delete k' (nattrs d n))\<rparr>
           in Inr (if k' = ''style'' then d1\<lparr>nstyle := (nstyle d1)(n := [])\<rparr> else d1))"

text \<open>An assignment \<open>el.k = v\<close> to a property that is not reflected as an attribute.\<close>

definition set_property :: "nid \<Rightarrow> string \<Rightarrow> jsval \<Rightarrow> dom \<Rightarrow> dom" where
  "set_property n k v d = d\<lparr>nprops := (nprops d)(n := AList.update k v (nprops d n))\<rparr>"

text \<open>\<open>el.className = v\<close>: on an element it sets the \<open>class\<close> attribute to
  \<open>String(v)\<close>, except on an SVG element, whose \<open>className\<close> is a read-only
  \<open>SVGAnimatedString\<close>: assigning it throws in module (strict) code. On a text node it
  is an ordinary property.\<close>

definition set_className :: "nid \<Rightarrow> jsval \<Rightarrow> dom \<Rightarrow> dom_error + dom" where
  "set_className n v d =
     (if is_elem d n then
        if namespaceURI d n = Some SVG_NS then Inl TypeError
        else Inr (d\<lparr>nattrs := (nattrs d)(n := AList.update ''class'' (js_String v) (nattrs d n))\<rparr>)
      else Inr (set_property n ''className'' v d))"

text \<open>\<open>setAttributeNS(ns, qualifiedName, v)\<close>, recorded under its qualified name.\<close>

definition setAttributeNS :: "nid \<Rightarrow> string \<Rightarrow> string \<Rightarrow> string \<Rightarrow> dom \<Rightarrow> dom_error + dom" where
  "setAttributeNS n ns k v d =
     (if \<not> is_elem d n then Inl TypeError
      else if \<not> valid_name k then Inl InvalidCharacterError
      else Inr (d\<lparr>nattrs := (nattrs d)(n := AList.update k v (nattrs d n))\<rparr>))"

text \<open>\<open>Object.assign(el.style, v)\<close>: copies the own properties of the object \<open>v\<close>
  in order; \<open>null\<close> and \<open>undefined\<close> sources are skipped. A text node has no
  \<open>style\<close>, and assigning into \<open>undefined\<close> throws.\<close>

definition style_assign :: "nid \<Rightarrow> jsval \<Rightarrow> dom \<Rightarrow> dom_error + dom" where
  "style_assign n v d =
     (if \<not> is_elem d n then Inl TypeError
      else case v of
        JObj ob \<Rightarrow> Inr (d\<lparr>nstyle := (nstyle d)(n := fold (\<lambda>(k, x) s. AList.update k x s) (jsheap d ob) (nstyle d n))\<rparr>)
      | _ \<Rightarrow> Inr d)"

text \<open>
  \<open>addEventListener(type, callback)\<close>: a \<open>null\<close> or \<open>undefined\<close> callback is
  ignored, a primitive one throws \<open>TypeError\<close> (it is not an object), and a pair
  already registered is not added twice. \<open>removeEventListener\<close> converts its callback
  the same way.
\<close>

definition callback_ok :: "jsval \<Rightarrow> bool" where
  "callback_ok v = (case v of JFun _ \<Rightarrow> True | JObj _ \<Rightarrow> True | _ \<Rightarrow> False)"

definition addEventListener :: "nid \<Rightarrow> string \<Rightarrow> jsval \<Rightarrow> dom \<Rightarrow> dom_error + dom" where
  "addEventListener n t v d =
     (if nullish v then Inr d
      else if \<not> callback_ok v then Inl TypeError
      else if (t, v) \<in> set (nlisteners d n) then Inr d
      else Inr (d\<lparr>nlisteners := (nlisteners d)(n := nlisteners d n @ [(t, v)])\<rparr>))"

definition removeEventListener :: "nid \<Rightarrow> string \<Rightarrow> jsval \<Rightarrow> dom \<Rightarrow> dom_error + dom" where
  "removeEventListener n t v d =
     (if nullish v then Inr d
      else if \<not> callback_ok v then Inl TypeError
      else Inr (d\<lparr>nlisteners := (nlisteners d)(n := removeAll (t, v) (nlisteners d n))\<rparr>))"

text \<open>Allocation never disturbs existing nodes: the kinds of the nodes below the
  counter are kept and the counter only grows.\<close>

definition kframe :: "dom \<Rightarrow> dom \<Rightarrow> bool" where
  "kframe d d' \<longleftrightarrow> nfresh d \<le> nfresh d' \<and> (\<forall>m < nfresh d. nkind d' m = nkind d m)"

text \<open>The definitions above, for evaluating the document operations on concrete stores.\<close>

lemmas dom_defs = alloc_def createTextNode_def dom_createElement_def is_elem_def detach_def
  is_html_elem_def XHTML_NS_def SVG_NS_def MATHML_NS_def XLINK_NS_def dom_createElementNS_def
  namespaceURI_def tagName_def setAttributeNS_def toUpperCase_def upper_char_def
  insertBefore_def appendChild_def removeChild_def replaceChild_def set_textContent_def
  setAttribute_def removeAttribute_def set_property_def set_className_def style_assign_def
  callback_ok_def addEventListener_def removeEventListener_def valid_name_def name_start_def
  name_char_def toLowerCase_def lower_char_def startsWith_def char_of_def bit_0

section \<open>Frame lemmas\<close>

named_theorems kframe_intros \<open>operations that keep the kinds of allocated nodes\<close>

lemma kframe_refl [simp]: "kframe d d"
  by (simp add: kframe_def)

lemma kframe_trans: "kframe a b \<Longrightarrow> kframe b c \<Longrightarrow> kframe a c"
  by (auto simp: kframe_def)

lemma kframe_same_kind: "nkind d' = nkind d \<Longrightarrow> nfresh d' = nfresh d \<Longrightarrow> kframe d d'"
  by (simp add: kframe_def)

lemma alloc_kframe [kframe_intros]: "alloc k d = (n, d') \<Longrightarrow> kframe d d' \<and> n = nfresh d \<and> nkind d' n = Some k"
  by (auto simp: alloc_def kframe_def Let_def)

lemma setAttribute_kframe [kframe_intros]: "setAttribute n k v d = Inr d' \<Longrightarrow> kframe d d'"
  by (auto simp: setAttribute_def kframe_def Let_def split: if_splits)

lemma setAttributeNS_kframe [kframe_intros]: "setAttributeNS n ns k v d = Inr d' \<Longrightarrow> kframe d d'"
  by (auto simp: setAttributeNS_def kframe_def split: if_splits)

lemma removeAttribute_kframe [kframe_intros]: "removeAttribute n k d = Inr d' \<Longrightarrow> kframe d d'"
  by (auto simp: removeAttribute_def kframe_def Let_def split: if_splits)

lemma set_className_kframe [kframe_intros]: "set_className n v d = Inr d' \<Longrightarrow> kframe d d'"
  by (auto simp: set_className_def set_property_def kframe_def split: if_splits)

lemma style_assign_kframe [kframe_intros]: "style_assign n v d = Inr d' \<Longrightarrow> kframe d d'"
  by (auto simp: style_assign_def kframe_def split: if_splits jsval.splits)

lemma listener_kframe [kframe_intros]:
  "addEventListener n t v d = Inr d' \<Longrightarrow> kframe d d'"
  "removeEventListener n t v d = Inr d' \<Longrightarrow> kframe d d'"
  by (auto simp: addEventListener_def removeEventListener_def kframe_def split: if_splits)

lemma listener_same:
  "addEventListener n t v d = Inr d' \<Longrightarrow> nkind d' = nkind d \<and> nfresh d' = nfresh d"
  "removeEventListener n t v d = Inr d' \<Longrightarrow> nkind d' = nkind d \<and> nfresh d' = nfresh d"
  by (auto simp: addEventListener_def removeEventListener_def split: if_splits)

lemma set_property_kframe [kframe_intros]: "kframe d (set_property n k v d)"
  by (simp add: set_property_def kframe_def)

lemma detach_kind [simp]: "nkind (detach c d) = nkind d" "nfresh (detach c d) = nfresh d"
  by (simp_all add: detach_def split: option.splits)

lemma tree_ops_kframe [kframe_intros]:
  "insertBefore p c r d = Inr d' \<Longrightarrow> kframe d d'"
  "appendChild p c d = Inr d' \<Longrightarrow> kframe d d'"
  "removeChild p c d = Inr d' \<Longrightarrow> kframe d d'"
  "replaceChild p c old d = Inr d' \<Longrightarrow> kframe d d'"
  by (auto simp: insertBefore_def appendChild_def removeChild_def replaceChild_def kframe_def Let_def
      split: if_splits option.splits)

end
