(* ===== verification/Render.thy ===== *)
theory Render
  imports Dom Diff
begin

text \<open>
  The patcher of \<^verbatim>\<open>src/src/render.js\<close> over the document model of \<open>Dom\<close>:
  \<open>createElement\<close> (a live subtree for a tree description), \<open>setProps\<close>,
  \<open>setProp\<close> and \<open>removeProp\<close> (how a prop reaches the element: event listener,
  \<open>class\<close>, \<open>style\<close>, the \<open>value\<close> property or an attribute), \<open>patch\<close> (recompute
  the diff, then apply it) and \<open>patchKeyedChildren\<close> (patch matched children, create new
  ones, move every child into place with \<open>insertBefore\<close>, trim the surplus). A node
  reference is \<open>nid option\<close>: \<open>None\<close> stands for the \<open>undefined\<close> that
  \<open>childNodes[i]\<close> reads past the end. Every exception the code can raise is an
  \<open>Inl\<close>; the partly mutated document an exception leaves behind is not kept.
\<close>

section \<open>Props on live nodes\<close>

text \<open>The event-handler branch of \<open>setProp\<close>: replace the listener recorded for
  this prop name in the \<open>eventHandlers\<close> map.\<close>

definition setHandler :: "nid \<Rightarrow> string \<Rightarrow> jsval \<Rightarrow> dom \<Rightarrow> dom_error + dom" where
  "setHandler el key value d =
     (let eventName = toLowerCase (drop 2 key);
          handlers = (case evhandlers d el of None \<Rightarrow> [] | Some hs \<Rightarrow> hs);
          d1 = d\<lparr>evhandlers := (evhandlers d)(el := Some handlers)\<rparr>
      in ebind (if truthy (prop_get handlers key)
                then removeEventListener el eventName (prop_get handlers key) d1 else Inr d1)
           (\<lambda>d2. addEventListener el eventName value
                   (d2\<lparr>evhandlers := (evhandlers d2)(el := Some (AList.update key value handlers))\<rparr>)))"

definition setProp :: "nid \<Rightarrow> string \<Rightarrow> jsval \<Rightarrow> dom \<Rightarrow> dom_error + dom" where
  "setProp el key value d =
     (if key = ''key'' then Inr d
      else if startsWith key ''on'' then setHandler el key value d
      else if key = ''className'' then set_className el value d
      else if key = ''style'' \<and> typeof_object value then style_assign el value d
      else if key = ''value'' then Inr (set_property el ''value'' value d)
      else setAttribute el key (js_String value) d)"

text \<open>\<open>for (const key in props) setProp(el, key, props[key])\<close>.\<close>

fun setProps :: "nid \<Rightarrow> jsobj \<Rightarrow> dom \<Rightarrow> dom_error + dom" where
  "setProps el [] d = Inr d"
| "setProps el ((k, v) # ps) d = ebind (setProp el k v d) (setProps el ps)"

definition removeProp :: "nid \<Rightarrow> string \<Rightarrow> dom \<Rightarrow> dom_error + dom" where
  "removeProp el key d =
     (if startsWith key ''on'' then
        let eventName = toLowerCase (drop 2 key)
        in case evhandlers d el of
             None \<Rightarrow> Inr d
           | Some handlers \<Rightarrow>
               if truthy (prop_get handlers key)
               then ebind (removeEventListener el eventName (prop_get handlers key) d)
                      (\<lambda>d1. Inr (d1\<lparr>evhandlers := (evhandlers d1)(el := Some (AList.delete key handlers))\<rparr>))
               else Inr d
      else if key = ''className'' then set_className el (JStr []) d
      else removeAttribute el key d)"

section \<open>Materialising a tree description\<close>

text \<open>A text node gets \<open>vnode.text\<close>, \<open>''undefined''\<close> when the object has none.\<close>

fun createElement :: "vnode \<Rightarrow> dom \<Rightarrow> nid dres"
  and createChildren :: "nid \<Rightarrow> vnode list \<Rightarrow> dom \<Rightarrow> dom_error + dom" where
  "createElement (VNode t p cs x) d =
     (if t = TEXT_TYPE then Inr (createTextNode (case x of Some s \<Rightarrow> s | None \<Rightarrow> ''undefined'') d)
      else ebind (dom_createElement t d)
             (\<lambda>(el, d1). ebind (setProps el p d1) (\<lambda>d2. ebind (createChildren el cs d2) (\<lambda>d3. Inr (el, d3)))))"
| "createChildren el [] d = Inr d"
| "createChildren el (c # cs) d =
     ebind (createElement c d) (\<lambda>(n, d1). ebind (appendChild el n d1) (createChildren el cs))"

section \<open>Patching\<close>

text \<open>The prop patches of an \<open>UPDATE\<close>, in order.\<close>

fun patchProps :: "nid \<Rightarrow> prop_patch list \<Rightarrow> dom \<Rightarrow> dom_error + dom" where
  "patchProps el [] d = Inr d"
| "patchProps el (SET_PROP k v # pps) d = ebind (setProp el k v d) (patchProps el pps)"
| "patchProps el (REMOVE_PROP k # pps) d = ebind (removeProp el k d) (patchProps el pps)"

text \<open>The second and third passes of \<open>patchKeyedChildren\<close>: move each new element to
  its index (holes of the sparse \<open>newElements\<close> are skipped), then drop trailing
  children beyond the new count.\<close>

fun reorder :: "nid \<Rightarrow> nid option option list \<Rightarrow> nat \<Rightarrow> dom \<Rightarrow> dom_error + dom" where
  "reorder p [] i d = Inr d"
| "reorder p (None # xs) i d = reorder p xs (Suc i) d"
| "reorder p (Some v # xs) i d =
     (let cur = arr_get (nkids d p) i
      in if cur = v then reorder p xs (Suc i) d
         else case v of
                None \<Rightarrow> Inl TypeError
              | Some el \<Rightarrow> ebind (insertBefore p el cur d) (reorder p xs (Suc i)))"

function trimChildren :: "nid \<Rightarrow> nat \<Rightarrow> dom \<Rightarrow> dom_error + dom" where
  "trimChildren p n d =
     (if length (nkids d p) \<le> n then Inr d
      else ebind (removeChild p (last (nkids d p)) d) (trimChildren p n))"
  by pat_completeness auto
termination
  by (relation "measure (\<lambda>(p, n, d). length (nkids d p))")
     (auto simp: removeChild_def length_remove1 split: if_splits)

fun hd_opt :: "'a list \<Rightarrow> 'a option" where
  "hd_opt [] = None"
| "hd_opt (x # xs) = Some x"

lemma vsize_arr_get: "vsize_opt (arr_get xs i) \<le> size_list size xs"
proof (cases "i < length xs")
  case True
  then have "size (xs ! i) \<le> size_list size xs"
    by (metis nth_mem size_list_estimation' order_refl)
  with True show ?thesis by (simp add: arr_get_def)
qed (simp add: arr_get_def)

lemma vsize_arr_get2:
  "vsize_opt (arr_get xs i) + vsize_opt (arr_get ys j) < size_list size xs + size_list size ys \<or>
   vsize_opt (arr_get xs i) + vsize_opt (arr_get ys j) = size_list size xs + size_list size ys"
  using add_mono [OF vsize_arr_get vsize_arr_get, of xs i ys j] by linarith

lemma size_vchildren: "size_list size (vchildren a) + size_list size (vchildren b) < size a + size b"
  by (cases a; cases b) simp

lemma vsize_hd_opt_le: "vsize_opt (hd_opt xs) \<le> size_list size xs"
  by (cases xs) auto

lemma size_list_tl_le: "size_list f (tl xs) \<le> size_list f xs"
  by (cases xs) auto

lemma size_list_tl2: "xs \<noteq> [] \<or> ys \<noteq> [] \<Longrightarrow>
  size_list size (tl xs) + size_list size (tl ys) < size_list size xs + size_list size ys"
  by (cases xs; cases ys) auto

lemma vsize_hd_opt: "xs \<noteq> [] \<or> ys \<noteq> [] \<Longrightarrow>
  vsize_opt (hd_opt xs) + vsize_opt (hd_opt ys) < size_list size xs + size_list size ys"
  by (cases xs; cases ys) auto

text \<open>
  \<open>patch(parent, el, oldVNode, newVNode)\<close>, with the positional child loop
  \<open>patchPositional\<close> (one call per entry of \<open>childPatches.patches\<close>, whose length is
  that of the longer child list, over the snapshot \<open>Array.from(el.childNodes)\<close>) and the
  first pass of \<open>patchKeyedChildren\<close>, \<open>patchKeyed\<close> (one step per keyed patch,
  filling the sparse array \<open>newElements\<close>). \<open>oldVNode.children\<close> is read only when the
  diff is an \<open>UPDATE\<close>, and then both descriptions are present.
\<close>

function (sequential) patch :: "nid \<Rightarrow> nid option \<Rightarrow> vnode option \<Rightarrow> vnode option \<Rightarrow> dom \<Rightarrow> nid option dres"
  and patchPositional :: "nid \<Rightarrow> nid list \<Rightarrow> vnode list \<Rightarrow> vnode list \<Rightarrow> dom \<Rightarrow> dom_error + dom"
  and patchKeyed :: "nid \<Rightarrow> nid list \<Rightarrow> keyed_patch list \<Rightarrow> vnode list \<Rightarrow> vnode list \<Rightarrow>
                      nid option option list \<Rightarrow> dom \<Rightarrow> (nid option option list) dres" where
  "patch parent el oldVNode newVNode d =
     (case diff oldVNode newVNode of
        None \<Rightarrow> Inr (el, d)
      | Some (CREATE v) \<Rightarrow>
          (case v of
             None \<Rightarrow> Inl TypeError
           | Some vn \<Rightarrow> ebind (createElement vn d)
                          (\<lambda>(newEl, d1). ebind (appendChild parent newEl d1) (\<lambda>d2. Inr (Some newEl, d2))))
      | Some REMOVE \<Rightarrow>
          (case el of
             None \<Rightarrow> Inl TypeError
           | Some e \<Rightarrow> ebind (removeChild parent e d) (\<lambda>d1. Inr (None, d1)))
      | Some (REPLACE vn) \<Rightarrow>
          ebind (createElement vn d)
            (\<lambda>(newEl, d1). case el of
                None \<Rightarrow> Inl TypeError
              | Some e \<Rightarrow> ebind (replaceChild parent newEl e d1) (\<lambda>d2. Inr (Some newEl, d2)))
      | Some (TEXT t) \<Rightarrow>
          (case el of
             None \<Rightarrow> Inl TypeError
           | Some e \<Rightarrow> Inr (el, set_textContent e (case t of None \<Rightarrow> [] | Some s \<Rightarrow> s) d))
      | Some (UPDATE propPatches childPatches) \<Rightarrow>
          (case (el, oldVNode, newVNode) of
             (Some e, Some ov, Some nv) \<Rightarrow>
               ebind (patchProps e propPatches d)
                 (\<lambda>d1. case childPatches of
                    Keyed ks \<Rightarrow>
                      ebind (patchKeyed e (nkids d1 e) ks (vchildren ov) (vchildren nv) [] d1)
                        (\<lambda>(newElements, d2). ebind (reorder e newElements 0 d2)
                           (\<lambda>d3. ebind (trimChildren e (length newElements) d3) (\<lambda>d4. Inr (el, d4))))
                  | Positional ps \<Rightarrow>
                      ebind (patchPositional e (nkids d1 e) (vchildren ov) (vchildren nv) d1)
                        (\<lambda>d2. Inr (el, d2)))
           | _ \<Rightarrow> Inl TypeError))"
| "patchPositional el cs [] [] d = Inr d"
| "patchPositional el cs os ns d =
     ebind (patch el (hd_opt cs) (hd_opt os) (hd_opt ns) d) (\<lambda>(_, d1). patchPositional el (tl cs) (tl os) (tl ns) d1)"
| "patchKeyed parent oldDom [] os ns newElements d = Inr (newElements, d)"
| "patchKeyed parent oldDom (KPatch oi ni k p # ks) os ns newElements d =
     (case ni of
        None \<Rightarrow> patchKeyed parent oldDom ks os ns newElements d
      | Some j \<Rightarrow>
          (case oi of
             Some i \<Rightarrow>
               ebind (patch parent (arr_get oldDom i) (arr_get os i) (arr_get ns j) d)
                 (\<lambda>(patchedEl, d1). patchKeyed parent oldDom ks os ns (arr_set newElements j patchedEl) d1)
           | None \<Rightarrow>
               (case p of
                  Some (CREATE (Some vn)) \<Rightarrow>
                    ebind (createElement vn d)
                      (\<lambda>(newEl, d1). patchKeyed parent oldDom ks os ns (arr_set newElements j (Some newEl)) d1)
                | Some (REPLACE vn) \<Rightarrow>
                    ebind (createElement vn d)
                      (\<lambda>(newEl, d1). patchKeyed parent oldDom ks os ns (arr_set newElements j (Some newEl)) d1)
                | _ \<Rightarrow> Inl TypeError)))"
  by pat_completeness auto
termination
  by (relation "measures
        [\<lambda>x. case x of Inl (_, _, a, b, _) \<Rightarrow> vsize_opt a + vsize_opt b
                     | Inr (Inl (_, _, os, ns, _)) \<Rightarrow> size_list size os + size_list size ns
                     | Inr (Inr (_, _, _, os, ns, _, _)) \<Rightarrow> size_list size os + size_list size ns,
         \<lambda>x. case x of Inl _ \<Rightarrow> 0 | Inr _ \<Rightarrow> 1,
         \<lambda>x. case x of Inr (Inr (_, _, ks, _)) \<Rightarrow> length ks | _ \<Rightarrow> 0]")
     (auto simp: vsize_hd_opt size_list_tl2 size_vchildren vsize_arr_get2 less_Suc_eq_le
       intro: vsize_hd_opt_le size_list_tl_le add_le_mono le_SucI trans_le_add1 trans_le_add2)

text \<open>A document holding one empty container element, node 0, the usual mount point.\<close>

definition empty_doc :: dom where
  "empty_doc = \<lparr>nkind = (\<lambda>_. None)(0 := Some (DElem ''div'')), nattrs = (\<lambda>_. []), nprops = (\<lambda>_. []),
     nstyle = (\<lambda>_. []), nlisteners = (\<lambda>_. []), nkids = (\<lambda>_. []), nparent = (\<lambda>_. None), nfresh = 1,
     jsheap = (\<lambda>_. []), evhandlers = (\<lambda>_. None)\<rparr>"

lemmas render_defs = dom_defs setHandler_def setProp_def removeProp_def empty_doc_def keyedCount_def key_of_def
  oldKeyMap_def diffProps_def js_simps arr_set_def arr_get_def Let_def

section \<open>Frame lemmas of the patcher\<close>

lemma setHandler_kframe [kframe_intros]: "setHandler el k v d = Inr d' \<Longrightarrow> kframe d d'"
  unfolding setHandler_def Let_def
  by (auto simp: ebind_eq_Inr kframe_def split: if_splits dest!: listener_same)

lemma setProp_kframe [kframe_intros]: "setProp el k v d = Inr d' \<Longrightarrow> kframe d d'"
  unfolding setProp_def
  by (auto split: if_splits intro: set_property_kframe kframe_refl
      dest: setHandler_kframe set_className_kframe style_assign_kframe setAttribute_kframe)

lemma removeProp_kframe [kframe_intros]: "removeProp el k d = Inr d' \<Longrightarrow> kframe d d'"
  unfolding removeProp_def Let_def
  by (auto simp: ebind_eq_Inr kframe_def split: if_splits option.splits dest!: listener_same
      dest: set_className_kframe removeAttribute_kframe)

lemma setProps_kframe [kframe_intros]: "setProps el ps d = Inr d' \<Longrightarrow> kframe d d'"
proof (induction el ps d rule: setProps.induct)
  case (2 el k v ps d)
  then obtain a where "setProp el k v d = Inr a" "setProps el ps a = Inr d'" by (auto simp: ebind_eq_Inr)
  with 2 show ?case by (metis kframe_trans setProp_kframe)
qed (simp add: kframe_refl)


lemma createElement_kframe:
  shows "createElement v d = Inr (n, d') \<Longrightarrow> kframe d d' \<and> n < nfresh d'"
    and "createChildren el cs d = Inr d' \<Longrightarrow> kframe d d'"
proof (induction v d and el cs d arbitrary: n d' and d' rule: createElement_createChildren.induct)
  case (1 t p cs x d)
  show ?case
  proof (cases "t = TEXT_TYPE")
    case True
    with "1.prems" show ?thesis
      by (auto simp: createTextNode_def alloc_def kframe_def Let_def)
  next
    case False
    with "1.prems" obtain d1 d2 where a: "dom_createElement t d = Inr (n, d1)"
      and s: "setProps n p d1 = Inr d2" and c: "createChildren n cs d2 = Inr d'"
      by (auto simp: ebind_eq_Inr split: prod.splits)
    from a have k1: "kframe d d1" "n < nfresh d1"
      by (auto simp: dom_createElement_def alloc_def kframe_def Let_def split: if_splits)
    have "kframe d2 d'" using "1.IH" False a s c by auto
    then show ?thesis using k1 setProps_kframe [OF s] by (auto simp: kframe_def)
  qed
next
  case (3 el c cs d)
  then obtain n d1 d2 where a: "createElement c d = Inr (n, d1)" and b: "appendChild el n d1 = Inr d2"
    and c: "createChildren el cs d2 = Inr d'"
    by (auto simp: ebind_eq_Inr split: prod.splits)
  have "kframe d d1" using "3.IH"(1) [OF a] by simp
  moreover have "kframe d2 d'" using "3.IH"(2) [OF a refl b c] .
  ultimately show ?case using tree_ops_kframe(2) [OF b] by (meson kframe_trans)
qed simp


lemma createElement_root_kind:
  assumes "createElement (VNode t p cs x) d = Inr (n, d')" and "t \<noteq> TEXT_TYPE"
  shows "n = nfresh d \<and> nkind d' n = Some (DElem (toLowerCase t))"
proof -
  from assms obtain d1 d2 where a: "dom_createElement t d = Inr (n, d1)"
    and s: "setProps n p d1 = Inr d2" and c: "createChildren n cs d2 = Inr d'"
    by (auto simp: ebind_eq_Inr split: prod.splits)
  from a have n: "n = nfresh d" "nkind d1 n = Some (DElem (toLowerCase t))" "n < nfresh d1"
    by (auto simp: dom_createElement_def alloc_def Let_def split: if_splits)
  have "kframe d1 d'" using kframe_trans [OF setProps_kframe [OF s] createElement_kframe(2) [OF c]] .
  with n show ?thesis by (auto simp: kframe_def)
qed

section \<open>Properties of the patcher\<close>

text \<open>C15: Removing \<open>className\<close> from the props of a live HTML element does not
  remove its \<open>class\<close> attribute: \<open>diff\<close> yields the one prop patch
  \<open>REMOVE_PROP className\<close>, and \<open>removeProp\<close> assigns \<open>el.className = ''\<close>,
  so the patch succeeds in place and leaves \<open>class=""\<close>, where a fresh element for the
  new description has no \<open>class\<close> attribute.\<close>

theorem className_removal_leaves_empty_class:
  assumes "nkind d e = Some (DElem tg)" and "nkids d e = []"
    and "t \<noteq> TEXT_TYPE" and "wf_obj p" and "JNaN \<notin> set (map snd p)" and "prop_has p ''className''"
  shows "\<exists>d'. patch c (Some e) (Some (VNode t p [] x)) (Some (VNode t (AList.delete ''className'' p) [] x')) d
                = Inr (Some e, d')
           \<and> nattrs d' e = AList.update ''class'' [] (nattrs d e) \<and> nkids d' e = []"
proof -
  have dp: "diffProps p (AList.delete ''className'' p) = [REMOVE_PROP ''className'']"
    using assms(4-6) by (rule diffProps_delete)
  have dc: "diffChildren [] [] = Keyed []" by (simp add: keyedCount_def)
  have rp: "removeProp e ''className'' d =
              Inr (d\<lparr>nattrs := (nattrs d)(e := AList.update ''class'' [] (nattrs d e))\<rparr>)"
    using assms(1) by (simp add: removeProp_def set_className_def is_elem_def namespaceURI_def
        startsWith_def XHTML_NS_def SVG_NS_def)
  show ?thesis
    using assms(2,3) dp dc rp by (simp add: Let_def del: diffChildren.simps)
qed

theorem className_removal_leaves_empty_class_witness:
  "\<exists>d'. patch 0 (Some 1) (Some (VNode ''div'' [(''className'', JStr ''x'')] [] None))
           (Some (VNode ''div'' [] [] None))
           (empty_doc\<lparr>nkind := (nkind empty_doc)(1 := Some (DElem ''div'')),
                       nattrs := (nattrs empty_doc)(1 := [(''class'', ''x'')])\<rparr>)
         = Inr (Some 1, d') \<and> nattrs d' 1 = [(''class'', [])] \<and> nkids d' 1 = []"
proof -
  let ?d = "empty_doc\<lparr>nkind := (nkind empty_doc)(1 := Some (DElem ''div'')),
                       nattrs := (nattrs empty_doc)(1 := [(''class'', ''x'')])\<rparr>"
  have h: "nkind ?d 1 = Some (DElem ''div'')" "nkids ?d 1 = []" "''div'' \<noteq> TEXT_TYPE"
    "wf_obj [(''className'', JStr ''x'')]" "JNaN \<notin> set (map snd [(''className'', JStr ''x'')])"
    "prop_has [(''className'', JStr ''x'')] ''className''"
    by (simp_all add: empty_doc_def)
  from className_removal_leaves_empty_class [where c = 0 and x = None and x' = None, OF h] show ?thesis
    by (simp add: empty_doc_def)
qed

end
