(* ===== verification/RenderNS.thy ===== *)
theory RenderNS
  imports Render
begin

text \<open>
  The namespace-aware patcher of \<^verbatim>\<open>src/unnamed/part_005\<close>, a variant of render.js
  that creates \<open>svg\<close> and \<open>math\<close> subtrees with \<open>createElementNS\<close>:
  \<open>getNamespace\<close> and \<open>getChildNamespace\<close> choose the namespace of an element and of its
  children (\<open>foreignObject\<close> switches back to HTML); \<open>createElement_ns\<close> threads the
  namespace down the tree; \<open>setProp_ns\<close> sets \<open>className\<close> through \<open>setAttribute\<close> on
  SVG, assigns \<open>value\<close> only outside namespaces and routes \<open>xlinkHref\<close> to
  \<open>setAttributeNS\<close>; \<open>patch_ns\<close> infers the namespace for created children from the
  live parent (\<open>namespaceURI\<close>, \<open>tagName\<close>). \<open>removeProp\<close>, the \<open>insertBefore\<close>
  pass and the trim loop are the code of render.js and are shared with \<open>Render\<close>. A
  namespace is \<open>string option\<close>, \<open>None\<close> for \<open>null\<close>.
\<close>

section \<open>Namespaces\<close>

definition getNamespace :: "string \<Rightarrow> string option \<Rightarrow> string option" where
  "getNamespace type parentNs =
     (if type = ''svg'' then Some SVG_NS else if type = ''math'' then Some MATHML_NS else parentNs)"

definition getChildNamespace :: "string \<Rightarrow> string option \<Rightarrow> string option" where
  "getChildNamespace type elementNs = (if type = ''foreignObject'' then None else elementNs)"

text \<open>\<open>!ns\<close> and \<open>ns ? ... : ...\<close>: a namespace is truthy when it is a non-empty string.\<close>

definition ns_truthy :: "string option \<Rightarrow> bool" where
  "ns_truthy ns = (case ns of None \<Rightarrow> False | Some s \<Rightarrow> s \<noteq> [])"

text \<open>The namespace \<open>patch\<close> and \<open>patchKeyedChildren\<close> give created children: the
  parent's own namespace inside SVG and MathML (reset by \<open>foreignObject\<close>, tested on the
  lower-cased \<open>tagName\<close>), \<open>null\<close> elsewhere.\<close>

definition childNs_of :: "dom \<Rightarrow> nid \<Rightarrow> string option" where
  "childNs_of d parent =
     (let parentNs = namespaceURI d parent
      in if parentNs = Some SVG_NS \<or> parentNs = Some MATHML_NS
         then (case tagName d parent of
                 Some tn \<Rightarrow> getChildNamespace (toLowerCase tn) parentNs
               | None \<Rightarrow> None)
         else None)"

section \<open>Props\<close>

definition setProp_ns :: "nid \<Rightarrow> string \<Rightarrow> jsval \<Rightarrow> string option \<Rightarrow> dom \<Rightarrow> dom_error + dom" where
  "setProp_ns el key value ns d =
     (if key = ''key'' then Inr d
      else if startsWith key ''on'' then setHandler el key value d
      else if key = ''className'' then
        (if ns = Some SVG_NS then setAttribute el ''class'' (js_String value) d
         else set_className el value d)
      else if key = ''style'' \<and> typeof_object value then style_assign el value d
      else if key = ''value'' \<and> \<not> ns_truthy ns then Inr (set_property el ''value'' value d)
      else if key = ''xlinkHref'' \<or> key = ''xlink:href'' then
        setAttributeNS el XLINK_NS ''xlink:href'' (js_String value) d
      else setAttribute el key (js_String value) d)"

fun setProps_ns :: "nid \<Rightarrow> jsobj \<Rightarrow> string option \<Rightarrow> dom \<Rightarrow> dom_error + dom" where
  "setProps_ns el [] ns d = Inr d"
| "setProps_ns el ((k, v) # ps) ns d = ebind (setProp_ns el k v ns d) (setProps_ns el ps ns)"

fun patchProps_ns :: "nid \<Rightarrow> prop_patch list \<Rightarrow> string option \<Rightarrow> dom \<Rightarrow> dom_error + dom" where
  "patchProps_ns el [] ns d = Inr d"
| "patchProps_ns el (SET_PROP k v # pps) ns d = ebind (setProp_ns el k v ns d) (patchProps_ns el pps ns)"
| "patchProps_ns el (REMOVE_PROP k # pps) ns d = ebind (removeProp el k d) (patchProps_ns el pps ns)"

section \<open>Materialising\<close>

fun createElement_ns :: "vnode \<Rightarrow> string option \<Rightarrow> dom \<Rightarrow> nid dres"
  and createChildren_ns :: "nid \<Rightarrow> vnode list \<Rightarrow> string option \<Rightarrow> dom \<Rightarrow> dom_error + dom" where
  "createElement_ns (VNode t p cs x) ns d =
     (if t = TEXT_TYPE then Inr (createTextNode (case x of Some s \<Rightarrow> s | None \<Rightarrow> ''undefined'') d)
      else let elementNs = getNamespace t ns
           in ebind (if ns_truthy elementNs then dom_createElementNS (the elementNs) t d
                     else dom_createElement t d)
                (\<lambda>(el, d1). ebind (setProps_ns el p elementNs d1)
                   (\<lambda>d2. ebind (createChildren_ns el cs (getChildNamespace t elementNs) d2)
                           (\<lambda>d3. Inr (el, d3)))))"
| "createChildren_ns el [] ns d = Inr d"
| "createChildren_ns el (c # cs) ns d =
     ebind (createElement_ns c ns d) (\<lambda>(n, d1). ebind (appendChild el n d1) (createChildren_ns el cs ns))"

section \<open>Patching\<close>

function (sequential) patch_ns :: "nid \<Rightarrow> nid option \<Rightarrow> vnode option \<Rightarrow> vnode option \<Rightarrow> dom \<Rightarrow> nid option dres"
  and patchPositional_ns :: "nid \<Rightarrow> nid list \<Rightarrow> vnode list \<Rightarrow> vnode list \<Rightarrow> dom \<Rightarrow> dom_error + dom"
  and patchKeyed_ns :: "nid \<Rightarrow> string option \<Rightarrow> nid list \<Rightarrow> keyed_patch list \<Rightarrow> vnode list \<Rightarrow> vnode list \<Rightarrow>
                      nid option option list \<Rightarrow> dom \<Rightarrow> (nid option option list) dres" where
  "patch_ns parent el oldVNode newVNode d =
     (case diff oldVNode newVNode of
        None \<Rightarrow> Inr (el, d)
      | Some patchObj \<Rightarrow>
          let childNs = childNs_of d parent
          in case patchObj of
               CREATE v \<Rightarrow>
                 (case v of
                    None \<Rightarrow> Inl TypeError
                  | Some vn \<Rightarrow> ebind (createElement_ns vn childNs d)
                                 (\<lambda>(newEl, d1). ebind (appendChild parent newEl d1) (\<lambda>d2. Inr (Some newEl, d2))))
             | REMOVE \<Rightarrow>
                 (case el of
                    None \<Rightarrow> Inl TypeError
                  | Some e \<Rightarrow> ebind (removeChild parent e d) (\<lambda>d1. Inr (None, d1)))
             | REPLACE vn \<Rightarrow>
                 ebind (createElement_ns vn childNs d)
                   (\<lambda>(newEl, d1). case el of
                       None \<Rightarrow> Inl TypeError
                     | Some e \<Rightarrow> ebind (replaceChild parent newEl e d1) (\<lambda>d2. Inr (Some newEl, d2)))
             | TEXT t \<Rightarrow>
                 (case el of
                    None \<Rightarrow> Inl TypeError
                  | Some e \<Rightarrow> Inr (el, set_textContent e (case t of None \<Rightarrow> [] | Some s \<Rightarrow> s) d))
             | UPDATE propPatches childPatches \<Rightarrow>
                 (case (el, oldVNode, newVNode) of
                    (Some e, Some ov, Some nv) \<Rightarrow>
                      let elNs = (if namespaceURI d e = Some SVG_NS \<or> namespaceURI d e = Some MATHML_NS
                                  then namespaceURI d e else None)
                      in ebind (patchProps_ns e propPatches elNs d)
                           (\<lambda>d1. case childPatches of
                              Keyed ks \<Rightarrow>
                                ebind (patchKeyed_ns e (childNs_of d1 e) (nkids d1 e) ks (vchildren ov) (vchildren nv) [] d1)
                                  (\<lambda>(newElements, d2). ebind (reorder e newElements 0 d2)
                                     (\<lambda>d3. ebind (trimChildren e (length newElements) d3) (\<lambda>d4. Inr (el, d4))))
                            | Positional ps \<Rightarrow>
                                ebind (patchPositional_ns e (nkids d1 e) (vchildren ov) (vchildren nv) d1)
                                  (\<lambda>d2. Inr (el, d2)))
                  | _ \<Rightarrow> Inl TypeError))"
| "patchPositional_ns el cs [] [] d = Inr d"
| "patchPositional_ns el cs os ns d =
     ebind (patch_ns el (hd_opt cs) (hd_opt os) (hd_opt ns) d) (\<lambda>(_, d1). patchPositional_ns el (tl cs) (tl os) (tl ns) d1)"
| "patchKeyed_ns parent childNs oldDom [] os ns newElements d = Inr (newElements, d)"
| "patchKeyed_ns parent childNs oldDom (KPatch oi ni k p # ks) os ns newElements d =
     (case ni of
        None \<Rightarrow> patchKeyed_ns parent childNs oldDom ks os ns newElements d
      | Some j \<Rightarrow>
          (case oi of
             Some i \<Rightarrow>
               ebind (patch_ns parent (arr_get oldDom i) (arr_get os i) (arr_get ns j) d)
                 (\<lambda>(patchedEl, d1). patchKeyed_ns parent childNs oldDom ks os ns (arr_set newElements j patchedEl) d1)
           | None \<Rightarrow>
               (case p of
                  Some (CREATE (Some vn)) \<Rightarrow>
                    ebind (createElement_ns vn childNs d)
                      (\<lambda>(newEl, d1). patchKeyed_ns parent childNs oldDom ks os ns (arr_set newElements j (Some newEl)) d1)
                | Some (REPLACE vn) \<Rightarrow>
                    ebind (createElement_ns vn childNs d)
                      (\<lambda>(newEl, d1). patchKeyed_ns parent childNs oldDom ks os ns (arr_set newElements j (Some newEl)) d1)
                | _ \<Rightarrow> Inl TypeError)))"
  by pat_completeness auto
termination
  by (relation "measures
        [\<lambda>x. case x of Inl (_, _, a, b, _) \<Rightarrow> vsize_opt a + vsize_opt b
                     | Inr (Inl (_, _, os, ns, _)) \<Rightarrow> size_list size os + size_list size ns
                     | Inr (Inr (_, _, _, _, os, ns, _, _)) \<Rightarrow> size_list size os + size_list size ns,
         \<lambda>x. case x of Inl _ \<Rightarrow> 0 | Inr _ \<Rightarrow> 1,
         \<lambda>x. case x of Inr (Inr (_, _, _, ks, _)) \<Rightarrow> length ks | _ \<Rightarrow> 0]")
     (auto simp: vsize_hd_opt size_list_tl2 size_vchildren vsize_arr_get2 less_Suc_eq_le
       intro: vsize_hd_opt_le size_list_tl_le add_le_mono le_SucI trans_le_add1 trans_le_add2)

lemmas render_ns_defs = render_defs getNamespace_def getChildNamespace_def ns_truthy_def childNs_of_def
  setProp_ns_def

section \<open>Frame lemmas of the namespace patcher\<close>

lemma setProp_ns_kframe [kframe_intros]: "setProp_ns el k v ns d = Inr d' \<Longrightarrow> kframe d d'"
  unfolding setProp_ns_def
  by (simp only: split: if_split_asm)
     (auto simp: setHandler_kframe set_className_kframe style_assign_kframe setAttribute_kframe
        setAttributeNS_kframe set_property_kframe)

lemma setProps_ns_kframe [kframe_intros]: "setProps_ns el ps ns d = Inr d' \<Longrightarrow> kframe d d'"
proof (induction el ps ns d rule: setProps_ns.induct)
  case (2 el k v ps ns d)
  then obtain a where "setProp_ns el k v ns d = Inr a" "setProps_ns el ps ns a = Inr d'"
    by (auto simp: ebind_eq_Inr)
  then have "kframe d a" "kframe a d'" using 2 by (auto dest: setProp_ns_kframe)
  then show ?case by (rule kframe_trans)
qed simp

lemma createElement_ns_kframe:
  shows "createElement_ns v ns d = Inr (n, d') \<Longrightarrow> kframe d d' \<and> n < nfresh d'"
    and "createChildren_ns el cs ns d = Inr d' \<Longrightarrow> kframe d d'"
proof (induction v ns d and el cs ns d arbitrary: n d' and d' rule: createElement_ns_createChildren_ns.induct)
  case (1 t p cs x ns d)
  show ?case
  proof (cases "t = TEXT_TYPE")
    case True
    with "1.prems" show ?thesis
      by (auto simp: createTextNode_def alloc_def kframe_def Let_def)
  next
    case False
    with "1.prems" obtain d1 d2 where
      a: "(if ns_truthy (getNamespace t ns) then dom_createElementNS (the (getNamespace t ns)) t d
           else dom_createElement t d) = Inr (n, d1)"
      and s: "setProps_ns n p (getNamespace t ns) d1 = Inr d2"
      and c: "createChildren_ns n cs (getChildNamespace t (getNamespace t ns)) d2 = Inr d'"
      by (auto simp: ebind_eq_Inr Let_def split: prod.splits)
    from a have k1: "kframe d d1" "n < nfresh d1"
      by (auto simp: dom_createElement_def dom_createElementNS_def alloc_def kframe_def Let_def
          split: if_splits)
    have "kframe d2 d'" using "1.IH" False a s c by (auto simp: Let_def)
    then show ?thesis using k1 setProps_ns_kframe [OF s] by (auto simp: kframe_def)
  qed
next
  case (3 el c cs ns d)
  then obtain n d1 d2 where a: "createElement_ns c ns d = Inr (n, d1)"
    and b: "appendChild el n d1 = Inr d2" and c: "createChildren_ns el cs ns d2 = Inr d'"
    by (auto simp: ebind_eq_Inr split: prod.splits)
  have "kframe d d1" using "3.IH"(1) [OF a] by simp
  moreover have "kframe d2 d'" using "3.IH"(2) [OF a refl b c] .
  ultimately show ?case using tree_ops_kframe(2) [OF b] by (meson kframe_trans)
qed simp

lemma createElement_ns_kind:
  assumes "createElement_ns (VNode t p cs x) ns d = Inr (n, d')" and "t \<noteq> TEXT_TYPE"
  shows "n = nfresh d \<and> nkind d' n = Some (case getNamespace t ns of
             Some s \<Rightarrow> if s \<noteq> [] then DElemNS s t else DElem (toLowerCase t)
           | None \<Rightarrow> DElem (toLowerCase t))"
proof -
  from assms obtain d1 d2 where
    a: "(if ns_truthy (getNamespace t ns) then dom_createElementNS (the (getNamespace t ns)) t d
         else dom_createElement t d) = Inr (n, d1)"
    and s: "setProps_ns n p (getNamespace t ns) d1 = Inr d2"
    and c: "createChildren_ns n cs (getChildNamespace t (getNamespace t ns)) d2 = Inr d'"
    by (auto simp: ebind_eq_Inr Let_def split: prod.splits)
  from a have n: "n = nfresh d" "nkind d1 n = Some (case getNamespace t ns of
             Some s \<Rightarrow> if s \<noteq> [] then DElemNS s t else DElem (toLowerCase t)
           | None \<Rightarrow> DElem (toLowerCase t))" "n < nfresh d1"
    by (auto simp: dom_createElement_def dom_createElementNS_def ns_truthy_def alloc_def Let_def
        split: if_splits option.splits)
  have "kframe d1 d'" using kframe_trans [OF setProps_ns_kframe [OF s] createElement_ns_kframe(2) [OF c]] .
  with n show ?thesis by (auto simp: kframe_def)
qed

lemma childNs_of_foreignObject:
  "nkind d p = Some (DElemNS SVG_NS ''foreignObject'') \<Longrightarrow> childNs_of d p = Some SVG_NS"
  by (simp add: childNs_of_def getChildNamespace_def dom_defs)

section \<open>Properties of the namespace patcher\<close>

text \<open>C19: \<open>createElement(vnode, ns)\<close> returns a fresh element of the namespace
  \<open>getNamespace\<close> chooses: created with \<open>createElementNS\<close> under its own tag name when
  that namespace is a non-empty string (\<open>svg\<close> and \<open>math\<close> open their namespace,
  other tags inherit the parent's), and an HTML element of the lower-cased tag otherwise.\<close>

theorem createElement_ns_root_kind:
  assumes "createElement_ns (VNode t p cs x) ns d = Inr (n, d')" and "t \<noteq> TEXT_TYPE"
  shows "n = nfresh d \<and> nkind d' n = Some (case getNamespace t ns of
             Some s \<Rightarrow> if s \<noteq> [] then DElemNS s t else DElem (toLowerCase t)
           | None \<Rightarrow> DElem (toLowerCase t))"
  using assms by (rule createElement_ns_kind)

theorem createElement_ns_root_kind_witness:
  "case createElement_ns (VNode ''circle'' [] [] None) (Some SVG_NS) empty_doc of
     Inl e \<Rightarrow> False
   | Inr (n, d') \<Rightarrow> n = 1 \<and> nkind d' n = Some (DElemNS SVG_NS ''circle'')"
proof -
  obtain n d' where h: "createElement_ns (VNode ''circle'' [] [] None) (Some SVG_NS) empty_doc = Inr (n, d')"
    by (simp cong: ebind_weak_cong add: render_ns_defs)
  have "''circle'' \<noteq> TEXT_TYPE" by simp
  with createElement_ns_root_kind [OF h] show ?thesis
    unfolding h by (auto simp: getNamespace_def SVG_NS_def empty_doc_def)
qed

text \<open>C20: \<open>patch\<close> gives the children it creates under a live \<open>foreignObject\<close>
  the SVG namespace: it tests the lower-cased \<open>tagName\<close> (\<open>foreignobject\<close>)
  against \<open>'foreignObject'\<close>, so the reset to HTML never fires. Every element a patch
  creates there (any tag but \<open>math\<close>) is an SVG element, while the initial render,
  which passes \<open>getChildNamespace('foreignObject', ns) = null\<close> down, creates HTML
  elements there.\<close>

theorem foreignObject_patch_wrong_namespace:
  assumes "nkind d p = Some (DElemNS SVG_NS ''foreignObject'')"
    and "vtype v \<noteq> TEXT_TYPE" and "vtype v \<noteq> ''math''"
    and "patch_ns p el None (Some v) d = Inr (Some n, d')"
  shows "nkind d' n = Some (DElemNS SVG_NS (vtype v))"
proof -
  obtain t q cs x where v: "v = VNode t q cs x" by (cases v)
  from assms(4) obtain d1 where c: "createElement_ns v (Some SVG_NS) d = Inr (n, d1)"
    and a: "appendChild p n d1 = Inr d'"
    using childNs_of_foreignObject [OF assms(1)]
    by (auto simp: ebind_eq_Inr Let_def split: prod.splits)
  have g: "getNamespace t (Some SVG_NS) = Some SVG_NS"
    using assms(3) v by (simp add: getNamespace_def)
  have "nkind d1 n = Some (DElemNS SVG_NS t)" "n < nfresh d1"
    using createElement_ns_kind [OF c [unfolded v]] assms(2) createElement_ns_kframe(1) [OF c] v g
    by (auto simp: SVG_NS_def)
  then show ?thesis
    using tree_ops_kframe(2) [OF a] v by (simp add: kframe_def)
qed

text \<open>C21: \<open>removeProp\<close> on an SVG element assigns \<open>el.className = ''\<close>, a
  read-only \<open>SVGAnimatedString\<close>; in module (strict) code the assignment throws a
  \<open>TypeError\<close>. So every patch of a live SVG element whose new props are the old ones
  without \<open>className\<close> fails, whatever the children, although creating the element
  with the class succeeded through \<open>setAttribute\<close>.\<close>

theorem svg_className_removal_throws:
  assumes "namespaceURI d e = Some SVG_NS"
    and "t \<noteq> TEXT_TYPE" and "wf_obj p" and "JNaN \<notin> set (map snd p)" and "prop_has p ''className''"
  shows "patch_ns c (Some e) (Some (VNode t p cs x)) (Some (VNode t (AList.delete ''className'' p) cs' x')) d
           = Inl TypeError"
proof -
  have dp: "diffProps p (AList.delete ''className'' p) = [REMOVE_PROP ''className'']"
    using assms(3-5) by (rule diffProps_delete)
  have el: "is_elem d e" using assms(1)
    by (auto simp: namespaceURI_def is_elem_def split: option.splits dnode.splits)
  have rp: "removeProp e ''className'' d = Inl TypeError"
    using assms(1) el by (simp add: removeProp_def set_className_def startsWith_def)
  show ?thesis
    using assms(1,2) dp rp by (simp add: Let_def del: diffChildren.simps)
qed

theorem foreignObject_patch_wrong_namespace_witness:
  "case patch_ns 0 None None (Some (VNode ''div'' [] [] None))
          (empty_doc\<lparr>nkind := (nkind empty_doc)(0 := Some (DElemNS SVG_NS ''foreignObject''))\<rparr>) of
     Inr (Some n, d') \<Rightarrow> nkind d' n = Some (DElemNS SVG_NS ''div'')
   | _ \<Rightarrow> False"
proof -
  let ?d = "empty_doc\<lparr>nkind := (nkind empty_doc)(0 := Some (DElemNS SVG_NS ''foreignObject''))\<rparr>"
  obtain n d' where h: "patch_ns 0 None None (Some (VNode ''div'' [] [] None)) ?d = Inr (Some n, d')"
    by (simp cong: ebind_weak_cong add: render_ns_defs)
  have "nkind ?d 0 = Some (DElemNS SVG_NS ''foreignObject'')" "vtype (VNode ''div'' [] [] None) \<noteq> TEXT_TYPE"
    "vtype (VNode ''div'' [] [] None) \<noteq> ''math''"
    by simp_all
  from foreignObject_patch_wrong_namespace [OF this h] show ?thesis
    unfolding h by simp
qed

theorem svg_className_removal_throws_witness:
  "patch_ns 0 (Some 1) (Some (VNode ''svg'' [(''className'', JStr ''x'')] [] None))
     (Some (VNode ''svg'' [] [] None))
     (empty_doc\<lparr>nkind := (nkind empty_doc)(1 := Some (DElemNS SVG_NS ''svg''))\<rparr>) = Inl TypeError"
proof -
  let ?d = "empty_doc\<lparr>nkind := (nkind empty_doc)(1 := Some (DElemNS SVG_NS ''svg''))\<rparr>"
  have h: "namespaceURI ?d 1 = Some SVG_NS" "''svg'' \<noteq> TEXT_TYPE" "wf_obj [(''className'', JStr ''x'')]"
    "JNaN \<notin> set (map snd [(''className'', JStr ''x'')])" "prop_has [(''className'', JStr ''x'')] ''className''"
    by (simp_all add: namespaceURI_def)
  from svg_className_removal_throws [where c = 0 and cs = "[]" and cs' = "[]" and x = None and x' = None, OF h]
  show ?thesis by simp
qed

end
