(* ===== verification/Html.thy ===== *)
theory Html
  imports VNode
begin

text \<open>
  The template parser \<^verbatim>\<open>html.js\<close> (\<^verbatim>\<open>src/unnamed/part_002\<close>, lines 227--472):
  \<open>html\<close> joins the template strings with \<open>__PLACEHOLDER_i__\<close> markers and parses the
  result; \<open>parseHTML\<close> matches one element with \<open>TAG_REGEX\<close> or
  \<open>SELF_CLOSING_TAG_REGEX\<close>, or else treats the input as text; \<open>parseAttributes\<close>
  scans attributes with \<open>ATTR_REGEX\<close>; \<open>parseChildren\<close> walks the inner HTML with
  \<open>indexOf\<close> and \<open>findMatchingClose\<close>; \<open>processTextNode\<close> collapses white space and
  splices interpolated values; \<open>interpolateString\<close> fills markers inside attribute
  values. Each regular expression is a matcher function that returns the match JavaScript's
  backtracking finds first. An interpolated value is a \<open>child\<close> of \<open>VNode\<close> (a vnode, an
  array, or a primitive). The parse result is \<open>None\<close> only outside the model: a vnode or
  array interpolated as a whole attribute value, or a child \<open>h\<close> rejects.
\<close>

section \<open>Characters and strings\<close>

text \<open>\<open>\s\<close> and \<open>String.prototype.trim\<close>: tab, line feed, vertical tab, form feed,
  carriage return, space and no-break space.\<close>

definition is_ws :: "char \<Rightarrow> bool" where
  "is_ws c = (of_char c \<in> {9, 10, 11, 12, 13, 32, 160 :: nat})"

definition is_digit :: "char \<Rightarrow> bool" where
  "is_digit c = (let n = of_char c :: nat in 48 \<le> n \<and> n \<le> 57)"

text \<open>\<open>[\w-]\<close>: ASCII letters, digits, \<open>_\<close> and \<open>-\<close>.\<close>

definition is_name_char :: "char \<Rightarrow> bool" where
  "is_name_char c = (let n = of_char c :: nat in
     (65 \<le> n \<and> n \<le> 90) \<or> (97 \<le> n \<and> n \<le> 122) \<or> (48 \<le> n \<and> n \<le> 57) \<or> n = 95 \<or> n = 45)"

definition trim :: "string \<Rightarrow> string" where
  "trim s = rev (dropWhile is_ws (rev (dropWhile is_ws s)))"

text \<open>\<open>s.replace(/\s+/g, ' ')\<close>.\<close>

function collapse_ws :: "string \<Rightarrow> string" where
  "collapse_ws [] = []"
| "collapse_ws (c # cs) =
     (if is_ws c then CHR '' '' # collapse_ws (dropWhile is_ws cs) else c # collapse_ws cs)"
  by pat_completeness auto
termination
  by (relation "measure length") (auto simp: le_imp_less_Suc length_dropWhile_le)

text \<open>\<open>s.indexOf(t, i)\<close> for a non-empty \<open>t\<close>; \<open>None\<close> is \<open>-1\<close>.\<close>

function indexOf :: "string \<Rightarrow> string \<Rightarrow> nat \<Rightarrow> nat option" where
  "indexOf s t i =
     (if length s < i + length t then None
      else if take (length t) (drop i s) = t then Some i
      else indexOf s t (Suc i))"
  by pat_completeness auto
termination
  by (relation "measure (\<lambda>(s, t, i). Suc (length s) - i)") auto

declare indexOf.simps [simp del]

lemma indexOf_ge: "indexOf s t i = Some j \<Longrightarrow> i \<le> j \<and> j + length t \<le> length s"
proof (induction s t i rule: indexOf.induct)
  case (1 s t i)
  then show ?case by (auto simp: indexOf.simps [of s t i] split: if_splits)
qed

definition slice :: "string \<Rightarrow> nat \<Rightarrow> nat \<Rightarrow> string" where
  "slice s i j = take (j - i) (drop i s)"

definition endsWith :: "string \<Rightarrow> string \<Rightarrow> bool" where
  "endsWith s t = (length t \<le> length s \<and> drop (length s - length t) s = t)"

text \<open>\<open>parseInt\<close> of a run of decimal digits.\<close>

definition parse_digits :: "string \<Rightarrow> nat" where
  "parse_digits ds = foldl (\<lambda>n c. 10 * n + (of_char c - 48)) 0 ds"

section \<open>The regular expressions\<close>

abbreviation PH :: string where
  "PH \<equiv> ''__PLACEHOLDER_''"

text \<open>\<open>__PLACEHOLDER_(\d+)__\<close> matched at the start of a string: the digits and the rest.\<close>

definition ph_match :: "string \<Rightarrow> (string \<times> string) option" where
  "ph_match s =
     (if take 14 s = PH then
        let r = drop 14 s; ds = takeWhile is_digit r; rest = drop (length ds) r
        in if ds \<noteq> [] \<and> take 2 rest = ''__'' then Some (ds, drop 2 rest) else None
      else None)"

text \<open>
  \<open>TAG_REGEX = /^<([\w-]+)([^>]*)>(.*)<\/\1>$/s\<close>. The attribute group stops at the
  first \<open>>\<close>, and the content group runs to the end minus the closing tag, so the only
  backtracking that matters is over the length of the name: the longest prefix of the
  name run whose closing tag ends the input wins, and the rest of the run joins the
  attributes.
\<close>

fun tag_k :: "string \<Rightarrow> string \<Rightarrow> string \<Rightarrow> nat \<Rightarrow> (string \<times> string \<times> string) option" where
  "tag_k run attrs rest 0 = None"
| "tag_k run attrs rest (Suc k) =
     (let close = ''</'' @ take (Suc k) run @ ''>''
      in if endsWith rest close
         then Some (take (Suc k) run, drop (Suc k) run @ attrs, take (length rest - length close) rest)
         else tag_k run attrs rest k)"

definition tag_match :: "string \<Rightarrow> (string \<times> string \<times> string) option" where
  "tag_match s =
     (case s of
        c # r \<Rightarrow>
          if c \<noteq> CHR ''<'' then None
          else let run = takeWhile is_name_char r; after = drop (length run) r;
                   attrs = takeWhile (\<lambda>x. x \<noteq> CHR ''>'') after
               in if run = [] \<or> length attrs = length after then None
                  else tag_k run attrs (drop (Suc (length attrs)) after) (length run)
      | [] \<Rightarrow> None)"

text \<open>\<open>SELF_CLOSING_TAG_REGEX = /^<([\w-]+)([^>]*)\/?>$/\<close>: the first \<open>>\<close> must end
  the input; the attribute group has already taken a trailing \<open>/\<close>.\<close>

definition self_closing_match :: "string \<Rightarrow> (string \<times> string) option" where
  "self_closing_match s =
     (case s of
        c # r \<Rightarrow>
          if c \<noteq> CHR ''<'' then None
          else let run = takeWhile is_name_char r; after = drop (length run) r;
                   attrs = takeWhile (\<lambda>x. x \<noteq> CHR ''>'') after
               in if run \<noteq> [] \<and> after = attrs @ ''>'' then Some (run, attrs) else None
      | [] \<Rightarrow> None)"

text \<open>\<open>OPEN_TAG_REGEX = /^<([\w-]+)([^>]*)>/\<close>: the whole opening tag and the name.\<close>

definition open_tag_match :: "string \<Rightarrow> (string \<times> string) option" where
  "open_tag_match s =
     (case s of
        c # r \<Rightarrow>
          if c \<noteq> CHR ''<'' then None
          else let run = takeWhile is_name_char r; after = drop (length run) r;
                   attrs = takeWhile (\<lambda>x. x \<noteq> CHR ''>'') after
               in if run = [] \<or> length attrs = length after then None
                  else Some (c # run @ attrs @ ''>'', run)
      | [] \<Rightarrow> None)"

section \<open>Interpolated values\<close>

text \<open>\<open>values[i]\<close>, \<open>undefined\<close> past the end.\<close>

definition value_at :: "child list \<Rightarrow> nat \<Rightarrow> child" where
  "value_at vs i = (case arr_get vs i of None \<Rightarrow> CPrim JUndefined | Some v \<Rightarrow> v)"

text \<open>\<open>String(v)\<close> of an interpolated value: an array joins its elements with commas
  (\<open>null\<close> and \<open>undefined\<close> elements as empty strings), a vnode is an object.\<close>

fun join_comma :: "string list \<Rightarrow> string" where
  "join_comma [] = []"
| "join_comma [s] = s"
| "join_comma (s # ss) = s @ CHR '','' # join_comma ss"

fun child_String :: "child \<Rightarrow> string" where
  "child_String (CPrim v) = js_String v"
| "child_String (CNode n) = ''[object Object]''"
| "child_String (CArray xs) =
     join_comma (map (\<lambda>x. case x of CPrim v \<Rightarrow> if nullish v then [] else js_String v
                                 | _ \<Rightarrow> child_String x) xs)"

text \<open>\<open>value ?? ''\<close>, converted to a string by \<open>replace\<close>.\<close>

definition repl_string :: "child \<Rightarrow> string" where
  "repl_string v = (case v of CPrim x \<Rightarrow> if nullish x then [] else js_String x | _ \<Rightarrow> child_String v)"

text \<open>\<open>interpolateString(str, values)\<close>: every marker, left to right, replaced by its value.\<close>

function interpolateString :: "string \<Rightarrow> child list \<Rightarrow> string" where
  "interpolateString [] vs = []"
| "interpolateString (c # cs) vs =
     (case ph_match (c # cs) of
        Some (ds, rest) \<Rightarrow> repl_string (value_at vs (parse_digits ds)) @ interpolateString rest vs
      | None \<Rightarrow> c # interpolateString cs vs)"
  by pat_completeness auto
termination
  by (relation "measure (\<lambda>(s, vs). length s)") (auto simp: ph_match_def Let_def split: if_splits)

section \<open>Attributes\<close>

text \<open>The body of a quoted value, \<open>(?:[^"\\]|\\.)*"\<close> (or with \<open>'\<close>): characters up
  to the first unescaped quote; a backslash takes the next character along, except a line
  terminator, which \<open>.\<close> does not match. Escapes are kept, not decoded.\<close>

fun quoted_body :: "char \<Rightarrow> string \<Rightarrow> (string \<times> string) option" where
  "quoted_body q [] = None"
| "quoted_body q (c # cs) =
     (if c = q then Some ([], cs)
      else if c = CHR 0x5C then
        (case cs of
           [] \<Rightarrow> None
         | d # ds \<Rightarrow> if d = CHR 0x0A \<or> d = CHR 0x0D then None
                     else map_option (\<lambda>(b, r). (c # d # b, r)) (quoted_body q ds))
      else map_option (\<lambda>(b, r). (c # b, r)) (quoted_body q cs))"

definition try_quoted :: "char \<Rightarrow> string \<Rightarrow> (string \<times> string) option" where
  "try_quoted q s = (case s of c # cs \<Rightarrow> if c = q then quoted_body q cs else None | [] \<Rightarrow> None)"

text \<open>The optional value part \<open>(?:=(?:"..."|'...'|(\S+)))?\<close> after a name, tried in
  the order of the alternatives; when none applies the group matches nothing.\<close>

definition attr_value :: "string \<Rightarrow> string option \<times> string" where
  "attr_value r =
     (case r of
        c # r' \<Rightarrow>
          if c \<noteq> CHR ''='' then (None, r)
          else (case try_quoted (CHR 0x22) r' of
                  Some (b, rest) \<Rightarrow> (Some b, rest)
                | None \<Rightarrow>
                    (case try_quoted (CHR 0x27) r' of
                       Some (b, rest) \<Rightarrow> (Some b, rest)
                     | None \<Rightarrow>
                         let u = takeWhile (\<lambda>x. \<not> is_ws x) r'
                         in if u = [] then (None, r) else (Some u, drop (length u) r')))
      | [] \<Rightarrow> (None, []))"

text \<open>The prop one attribute yields: \<open>true\<close> without a value or with an empty one
  (\<open>!value\<close>), the interpolated value itself for a value that is exactly one marker,
  and otherwise the value string with its markers filled in.\<close>

definition attr_prop :: "child list \<Rightarrow> string option \<Rightarrow> jsval option" where
  "attr_prop vs value =
     (case value of
        None \<Rightarrow> Some (JBool True)
      | Some s \<Rightarrow>
          if s = [] then Some (JBool True)
          else case ph_match s of
                 Some (ds, []) \<Rightarrow> (case value_at vs (parse_digits ds) of CPrim x \<Rightarrow> Some x | _ \<Rightarrow> None)
               | _ \<Rightarrow> Some (JStr (interpolateString s vs)))"

lemma attr_value_length: "length (snd (attr_value r)) \<le> length r"
proof -
  have q: "quoted_body q s = Some (b, rest) \<Longrightarrow> length rest < length s" for q s b rest
    by (induction q s arbitrary: b rest rule: quoted_body.induct)
       (fastforce split: if_splits list.splits option.splits)+
  show ?thesis
    by (auto simp: attr_value_def try_quoted_def Let_def dest!: q
        split: list.splits option.splits if_splits prod.splits)
qed

lemma attr_value_length': "(a, rest) = attr_value (drop n s) \<Longrightarrow> length rest \<le> length s - n"
  using attr_value_length [of "drop n s"] by (metis length_drop snd_conv)

text \<open>The \<open>ATTR_REGEX.exec\<close> loop: skip to the next name character, take the name and
  its value, assign \<open>props[name]\<close>, continue after the match.\<close>

function parseAttributes_loop :: "child list \<Rightarrow> string \<Rightarrow> jsobj \<Rightarrow> jsobj option" where
  "parseAttributes_loop vs [] props = Some props"
| "parseAttributes_loop vs (c # cs) props =
     (if \<not> is_name_char c then parseAttributes_loop vs cs props
      else let name = takeWhile is_name_char (c # cs);
               (value, rest) = attr_value (drop (length name) (c # cs))
           in case attr_prop vs value of
                None \<Rightarrow> None
              | Some v \<Rightarrow> parseAttributes_loop vs rest (AList.update name v props))"
  by pat_completeness auto
termination
  by (relation "measure (\<lambda>(vs, s, p). length s)")
     (auto dest!: attr_value_length' simp: le_imp_less_Suc)

definition parseAttributes :: "string \<Rightarrow> child list \<Rightarrow> jsobj option" where
  "parseAttributes attrsString vs = parseAttributes_loop vs attrsString []"

section \<open>Text\<close>

text \<open>What one marker contributes to a text's parts: an array its elements, a vnode
  itself (an object with a truthy \<open>type\<close>), \<open>null\<close> and \<open>undefined\<close> nothing, any
  other value \<open>String(value)\<close>. A plain object reference is taken to have no \<open>type\<close>.\<close>

fun value_parts :: "child \<Rightarrow> child list" where
  "value_parts (CArray xs) = xs"
| "value_parts (CNode n) = (if vtype n \<noteq> [] then [CNode n] else [CPrim (JStr ''[object Object]'')])"
| "value_parts (CPrim x) = (if nullish x then [] else [CPrim (JStr (js_String x))])"

text \<open>The \<open>PLACEHOLDER_REGEX.exec\<close> loop of \<open>processTextNode\<close>: \<open>seg\<close> is the text
  since the last marker, pushed only when non-empty; the flag is \<open>hasPlaceholder\<close>.\<close>

function text_parts :: "child list \<Rightarrow> string \<Rightarrow> string \<Rightarrow> child list \<times> bool" where
  "text_parts vs seg [] = ((if seg = [] then [] else [CPrim (JStr seg)]), False)"
| "text_parts vs seg (c # cs) =
     (case ph_match (c # cs) of
        Some (ds, rest) \<Rightarrow>
          ((if seg = [] then [] else [CPrim (JStr seg)]) @ value_parts (value_at vs (parse_digits ds))
             @ fst (text_parts vs [] rest), True)
      | None \<Rightarrow> text_parts vs (seg @ [c]) cs)"
  by pat_completeness auto
termination
  by (relation "measure (\<lambda>(vs, seg, s). length s)") (auto simp: ph_match_def Let_def split: if_splits)

text \<open>\<open>processTextNode(text, values)\<close>: \<open>CPrim JNull\<close> is its \<open>null\<close>, \<open>CArray\<close> a
  parts array.\<close>

definition processTextNode :: "string \<Rightarrow> child list \<Rightarrow> child" where
  "processTextNode text vs =
     (let normalized = collapse_ws text;
          trimmed = trim normalized
      in if trimmed = [] then CPrim JNull
         else let hasLeadingSpace = (take 1 normalized = '' '' \<and> normalized \<noteq> '' '');
                  hasTrailingSpace = (endsWith normalized '' '' \<and> normalized \<noteq> '' '');
                  textToProcess = (if hasLeadingSpace then '' '' else []) @ trimmed
                                  @ (if hasTrailingSpace then '' '' else []);
                  (parts, hasPlaceholder) = text_parts vs [] textToProcess
              in if parts = [] then (if hasPlaceholder then CPrim JNull else CPrim (JStr textToProcess))
                 else if length parts = 1 then hd parts else CArray parts)"

text \<open>\<open>addTextNode\<close> of \<open>parseChildren\<close>: falsy results are dropped, arrays spread.\<close>

definition addTextNode :: "string \<Rightarrow> child list \<Rightarrow> child list" where
  "addTextNode text vs =
     (let t = processTextNode text vs
      in case t of
           CPrim v \<Rightarrow> if truthy v then [t] else []
         | CArray xs \<Rightarrow> xs
         | CNode _ \<Rightarrow> [t])"

section \<open>Elements\<close>

text \<open>\<open>findMatchingClose(tagName, startPos)\<close> over \<open>input\<close>: count nested openings
  \<open><tagName\<close> (not followed by \<open>/\<close>) against closings \<open></tagName>\<close>.\<close>

function findMatchingClose :: "string \<Rightarrow> string \<Rightarrow> nat \<Rightarrow> nat \<Rightarrow> nat option" where
  "findMatchingClose input tagName depth searchPos =
     (if depth = 0 \<or> length input \<le> searchPos then None
      else let closeTag = ''</'' @ tagName @ ''>'';
               nextOpen = indexOf input (CHR ''<'' # tagName) searchPos;
               nextClose = indexOf input closeTag searchPos
           in case nextClose of
                None \<Rightarrow> None
              | Some nc \<Rightarrow>
                  (case nextOpen of
                     Some no \<Rightarrow>
                       if no < nc \<and> arr_get input (no + length tagName + 1) \<noteq> Some (CHR ''/'')
                       then findMatchingClose input tagName (Suc depth) (no + length tagName + 1)
                       else if depth - 1 = 0 then Some nc
                       else findMatchingClose input tagName (depth - 1) (nc + length closeTag)
                   | None \<Rightarrow>
                       if depth - 1 = 0 then Some nc
                       else findMatchingClose input tagName (depth - 1) (nc + length closeTag)))"
  by pat_completeness auto
termination
  by (relation "measure (\<lambda>(input, tagName, depth, searchPos). length input - searchPos)")
     (auto dest!: indexOf_ge [OF sym])

lemma length_trim: "length (trim s) \<le> length s"
  by (simp add: trim_def) (metis length_dropWhile_le length_rev order_trans)

lemma tag_k_length: "tag_k run attrs rest k = Some (n, a, inner) \<Longrightarrow> length inner < Suc (length rest)"
  by (induction run attrs rest k rule: tag_k.induct) (auto simp: Let_def split: if_splits)

lemma tag_match_length: "tag_match t = Some (n, a, inner) \<Longrightarrow> length inner < length t"
proof -
  assume m: "tag_match t = Some (n, a, inner)"
  then obtain c r where t: "t = c # r" by (cases t) (auto simp: tag_match_def)
  let ?run = "takeWhile is_name_char r"
  let ?after = "drop (length ?run) r"
  let ?attrs = "takeWhile (\<lambda>x. x \<noteq> CHR ''>'') ?after"
  from m t have k: "tag_k ?run ?attrs (drop (Suc (length ?attrs)) ?after) (length ?run) = Some (n, a, inner)"
    by (auto simp: tag_match_def Let_def split: if_splits)
  have "length (drop (Suc (length ?attrs)) ?after) < length t" using t by simp
  with tag_k_length [OF k] show ?thesis by simp
qed

lemma open_tag_match_prefix:
  "open_tag_match x = Some (full, name) \<Longrightarrow> 0 < length full \<and> length full \<le> length x"
proof -
  assume m: "open_tag_match x = Some (full, name)"
  then obtain c r where x: "x = c # r" by (cases x) (auto simp: open_tag_match_def)
  let ?run = "takeWhile is_name_char r"
  let ?after = "drop (length ?run) r"
  let ?attrs = "takeWhile (\<lambda>y. y \<noteq> CHR ''>'') ?after"
  from m x have f: "full = c # ?run @ ?attrs @ ''>''" and ne: "length ?attrs \<noteq> length ?after"
    by (auto simp: open_tag_match_def Let_def split: if_splits)
  have l: "length ?attrs < length ?after"
    using ne length_takeWhile_le [of _ ?after] le_neq_implies_less by blast
  have "length ?run + length ?after = length r" by (simp add: length_takeWhile_le)
  with f l x show ?thesis by simp
qed

lemma diff_length_less: "pos \<le> x \<Longrightarrow> Suc x \<le> n \<Longrightarrow> a \<noteq> [] \<Longrightarrow> n - (x + length a) < n - pos"
  by (cases a) auto

lemma findMatchingClose_ge:
  "findMatchingClose input tagName depth searchPos = Some cp \<Longrightarrow> searchPos \<le> cp"
proof (induction input tagName depth searchPos rule: findMatchingClose.induct)
  case (1 input tagName depth searchPos)
  show ?case
    using "1.prems" "1.IH"
    by (fastforce simp: Let_def split: if_splits option.splits simp del: findMatchingClose.simps
        simp add: findMatchingClose.simps [of input tagName depth searchPos] dest!: indexOf_ge)
qed

declare findMatchingClose.simps [simp del]

text \<open>
  \<open>parseHTML(htmlString, values)\<close> and the \<open>while (pos < input.length)\<close> loop of
  \<open>parseChildren\<close> over \<open>input = innerHTML.trim()\<close>. A \<open><\<close> that opens no tag is
  skipped; an opening tag without its matching close is skipped with its attributes; the
  nested call parses the opening tag alone (self-closing) or the whole element.
\<close>

function parseHTML :: "string \<Rightarrow> child list \<Rightarrow> child option"
  and parseChildren_loop :: "string \<Rightarrow> child list \<Rightarrow> nat \<Rightarrow> child list \<Rightarrow> child list option" where
  "parseHTML htmlString vs =
     (let trimmed = trim htmlString;
          m = (case tag_match trimmed of
                 Some (tagName, attrs, inner) \<Rightarrow> Some (tagName, attrs, inner)
               | None \<Rightarrow> map_option (\<lambda>(tagName, attrs). (tagName, attrs, [])) (self_closing_match trimmed))
      in case m of
           None \<Rightarrow> Some (processTextNode trimmed vs)
         | Some (tagName, attrsString, innerHTML) \<Rightarrow>
             (case parseAttributes attrsString vs of
                None \<Rightarrow> None
              | Some props \<Rightarrow>
                  if innerHTML = [] then map_option CNode (h tagName (Some props) [])
                  else case parseChildren_loop (trim innerHTML) vs 0 [] of
                         None \<Rightarrow> None
                       | Some children \<Rightarrow> map_option CNode (h tagName (Some props) children)))"
| "parseChildren_loop input vs pos children =
     (if length input \<le> pos then Some children
      else case indexOf input ''<'' pos of
        None \<Rightarrow> Some (children @ addTextNode (drop pos input) vs)
      | Some tagStart \<Rightarrow>
          let children1 = (if pos < tagStart then children @ addTextNode (slice input pos tagStart) vs
                           else children)
          in case open_tag_match (drop tagStart input) of
               None \<Rightarrow> parseChildren_loop input vs (Suc tagStart) children1
             | Some (fullOpenTag, tagName) \<Rightarrow>
                 if endsWith fullOpenTag ''/>'' then
                   (case parseHTML fullOpenTag vs of
                      None \<Rightarrow> None
                    | Some c \<Rightarrow> parseChildren_loop input vs (tagStart + length fullOpenTag) (children1 @ [c]))
                 else case findMatchingClose input tagName 1 (tagStart + length fullOpenTag) of
                   None \<Rightarrow> parseChildren_loop input vs (tagStart + length fullOpenTag) children1
                 | Some closeTagPos \<Rightarrow>
                     let closeLen = length tagName + 3;
                         fullElement = slice input tagStart (closeTagPos + closeLen)
                     in case parseHTML fullElement vs of
                          None \<Rightarrow> None
                        | Some c \<Rightarrow> parseChildren_loop input vs (closeTagPos + closeLen) (children1 @ [c]))"
  by pat_completeness auto
termination
proof (relation "measures
    [\<lambda>x. case x of Inl (s, vs) \<Rightarrow> 2 * length s + 1 | Inr (input, vs, pos, cs) \<Rightarrow> 2 * length input + 2,
     \<lambda>x. case x of Inl _ \<Rightarrow> 0 | Inr (input, vs, pos, cs) \<Rightarrow> length input - pos]", goal_cases)
  case 1
  then show ?case by simp
next
  case (2 htmlString vs trimmed m x2 tagName y attrsString innerHTML props)
  then have "tag_match trimmed = Some (tagName, attrsString, innerHTML)"
    by (cases "self_closing_match trimmed") (auto split: option.splits)
  then have "length innerHTML < length trimmed" by (rule tag_match_length)
  moreover have "length trimmed \<le> length htmlString" "length (trim innerHTML) \<le> length innerHTML"
    using 2 length_trim by auto
  ultimately show ?case by simp
qed (auto simp: slice_def diff_length_less dest!: open_tag_match_prefix indexOf_ge findMatchingClose_ge
    sym [THEN open_tag_match_prefix] sym [THEN indexOf_ge] sym [THEN findMatchingClose_ge])

section \<open>The tag function\<close>

text \<open>\<open>strings[i]\<close> as \<open>join\<close> sees it: a missing string is empty.\<close>

definition str_at :: "string list \<Rightarrow> nat \<Rightarrow> string" where
  "str_at ss i = (case arr_get ss i of None \<Rightarrow> [] | Some s \<Rightarrow> s)"

definition placeholder :: "nat \<Rightarrow> string" where
  "placeholder i = PH @ nat_str i @ ''__''"

text \<open>\<open>parts = [strings[0]]\<close>, then \<open>__PLACEHOLDER_i__\<close> and \<open>strings[i + 1]\<close> for
  each value, joined.\<close>

definition html_join :: "string list \<Rightarrow> nat \<Rightarrow> string" where
  "html_join strings n = str_at strings 0 @ concat (map (\<lambda>i. placeholder i @ str_at strings (Suc i)) [0..<n])"

definition html :: "string list \<Rightarrow> child list \<Rightarrow> child option" where
  "html strings values = parseHTML (html_join strings (length values)) values"

text \<open>\<open>t\<close> occurs in \<open>s\<close>.\<close>

definition has_infix :: "string \<Rightarrow> string \<Rightarrow> bool" where
  "has_infix t s = list_ex (\<lambda>k. take (length t) (drop k s) = t) [0..<Suc (length s)]"

text \<open>The joined template after \<open>strings[0]\<close>: the markers from \<open>m\<close> on, each
  followed by its string.\<close>

definition marker_tail :: "string list \<Rightarrow> nat \<Rightarrow> nat \<Rightarrow> string" where
  "marker_tail ss m n = concat (map (\<lambda>i. placeholder i @ str_at ss (Suc i)) [m..<n])"

section \<open>Lemmas on the parser\<close>

lemma nat_str_digits: "nat_str n \<noteq> [] \<and> list_all is_digit (nat_str n)"
proof (induction n rule: nat_str.induct)
  case (1 n)
  show ?case
    using 1 by (auto simp: nat_str.simps [of n] is_digit_def)
qed

lemma parse_digits_snoc: "parse_digits (ds @ [c]) = 10 * parse_digits ds + (of_char c - 48)"
  by (simp add: parse_digits_def)

lemma parse_digits_nat_str: "parse_digits (nat_str n) = n"
proof (induction n rule: nat_str.induct)
  case (1 n)
  show ?case
  proof (cases "n < 10")
    case True
    then show ?thesis by (subst nat_str.simps) (simp add: parse_digits_def of_char_of)
  next
    case False
    then have "parse_digits (nat_str n) = 10 * (n div 10) + n mod 10"
      using 1 by (subst nat_str.simps) (simp add: parse_digits_snoc of_char_of)
    then show ?thesis by simp
  qed
qed

lemma takeWhile_digits_append:
  "list_all is_digit ds \<Longrightarrow> \<not> is_digit c \<Longrightarrow> takeWhile is_digit (ds @ c # r) = ds"
  by (induction ds) auto

lemma ph_match_placeholder: "ph_match (placeholder i @ r) = Some (nat_str i, r)"
proof -
  have d: "list_all is_digit (nat_str i)" "nat_str i \<noteq> []" using nat_str_digits by auto
  have u: "\<not> is_digit CHR ''_''" by (simp add: is_digit_def)
  show ?thesis
    using takeWhile_digits_append [OF d(1) u, of "CHR ''_'' # r"] d(2)
    by (simp add: ph_match_def placeholder_def)
qed

lemma interpolateString_append:
  "(\<forall>k<length s. ph_match (drop k s @ t) = None) \<Longrightarrow>
   interpolateString (s @ t) vs = s @ interpolateString t vs"
proof (induction s)
  case (Cons c s)
  have "ph_match (c # s @ t) = None" using Cons.prems by (metis drop0 length_Cons zero_less_Suc append_Cons)
  moreover have "\<forall>k<length s. ph_match (drop k s @ t) = None"
    using Cons.prems by (metis Suc_mono drop_Suc_Cons length_Cons)
  ultimately show ?case using Cons.IH by simp
qed simp

lemma PH_self_overlap: "0 < j \<Longrightarrow> j < 14 \<Longrightarrow> take (14 - j) PH = drop j PH \<Longrightarrow> j = 13"
  by (simp add: less_Suc_eq eval_nat_numeral) (elim disjE; simp)

lemma no_span:
  assumes "\<not> has_infix PH s" and "k < length s"
  shows "ph_match (drop k s @ placeholder i @ r) = None"
proof -
  let ?x = "drop k s"
  have j0: "0 < length ?x" using assms(2) by simp
  show ?thesis
  proof (cases "14 \<le> length ?x")
    case True
    have "take 14 (drop k s) \<noteq> PH"
      using assms by (auto simp: has_infix_def list_ex_iff numeral_eq_Suc)
    with True show ?thesis by (simp add: ph_match_def)
  next
    case False
    have p: "placeholder i @ r = PH @ (nat_str i @ ''__'' @ r)" by (simp add: placeholder_def)
    have "take (14 - length ?x) (PH @ (nat_str i @ ''__'' @ r)) = take (14 - length ?x) PH"
      by (simp only: take_append) simp
    then have t: "take 14 (?x @ placeholder i @ r) = ?x @ take (14 - length ?x) PH"
      using False by (simp only: p take_append) simp
    show ?thesis
    proof (cases "?x @ take (14 - length ?x) PH = PH")
      case True
      then have "take (14 - length ?x) PH = drop (length ?x) PH"
        by (metis append_eq_conv_conj)
      then have j: "length ?x = 13" using PH_self_overlap j0 False by simp
      have "drop 14 (?x @ placeholder i @ r) = drop 1 (placeholder i @ r)" using j by simp
      then have "takeWhile is_digit (drop 14 (?x @ placeholder i @ r)) = []"
        by (simp add: placeholder_def is_digit_def)
      then show ?thesis by (simp add: ph_match_def Let_def)
    next
      case False
      with t show ?thesis by (simp add: ph_match_def)
    qed
  qed
qed

lemma no_ph_end: "\<not> has_infix PH s \<Longrightarrow> k < length s \<Longrightarrow> ph_match (drop k s) = None"
  by (auto simp: has_infix_def list_ex_iff ph_match_def numeral_eq_Suc)

lemma interpolateString_segment:
  assumes "\<not> has_infix PH s" and "t = [] \<or> (\<exists>j r. t = placeholder j @ r)"
  shows "interpolateString (s @ t) vs = s @ interpolateString t vs"
  using assms no_span no_ph_end by (intro interpolateString_append) auto

lemma interpolateString_placeholder:
  "interpolateString (placeholder i @ r) vs = repl_string (value_at vs i) @ interpolateString r vs"
proof -
  obtain c cs where "placeholder i @ r = c # cs" by (simp add: placeholder_def)
  then show ?thesis
    using ph_match_placeholder [of i r] by (simp add: parse_digits_nat_str)
qed

lemma marker_tail_shape: "marker_tail ss m n = [] \<or> (\<exists>j r. marker_tail ss m n = placeholder j @ r)"
  by (cases "m < n") (auto simp: marker_tail_def upt_conv_Cons)

lemma str_at_no_infix: "list_all (\<lambda>s. \<not> has_infix PH s) ss \<Longrightarrow> \<not> has_infix PH (str_at ss i)"
  by (auto simp: str_at_def arr_get_def list_all_iff has_infix_def)

lemma interpolateString_marker_tail:
  assumes "list_all (\<lambda>s. \<not> has_infix PH s) ss"
  shows "interpolateString (marker_tail ss m n) vs =
           concat (map (\<lambda>i. repl_string (value_at vs i) @ str_at ss (Suc i)) [m..<n])"
proof (induction "n - m" arbitrary: m)
  case 0
  then show ?case by (simp add: marker_tail_def)
next
  case (Suc d)
  then have m: "m < n" by simp
  have "marker_tail ss m n = placeholder m @ (str_at ss (Suc m) @ marker_tail ss (Suc m) n)"
    using m by (simp add: marker_tail_def upt_conv_Cons)
  moreover have "interpolateString (str_at ss (Suc m) @ marker_tail ss (Suc m) n) vs =
                   str_at ss (Suc m) @ interpolateString (marker_tail ss (Suc m) n) vs"
    by (rule interpolateString_segment [OF str_at_no_infix [OF assms] marker_tail_shape])
  ultimately show ?case using Suc.hyps(1) [of "Suc m"] Suc.hyps(2) m
    by (simp add: interpolateString_placeholder upt_conv_Cons)
qed

lemma placeholder_no_ws: "takeWhile (\<lambda>x. \<not> is_ws x) (placeholder i) = placeholder i"
proof -
  have "list_all (\<lambda>x. \<not> is_ws x) (nat_str i)"
    using nat_str_digits [of i] by (auto simp: list_all_iff is_digit_def is_ws_def Let_def)
  then show ?thesis by (simp add: placeholder_def is_ws_def list_all_iff takeWhile_eq_all_conv)
qed

lemma placeholder_not_quote: "try_quoted q (placeholder i) = None" if "q \<noteq> CHR ''_''"
  using that by (simp add: try_quoted_def placeholder_def)

lemma takeWhile_name: "list_all is_name_char name \<Longrightarrow> \<not> is_name_char c \<Longrightarrow>
    takeWhile is_name_char (name @ c # r) = name"
  by (induction name) auto

lemmas html_eval = parseAttributes_def attr_value_def try_quoted_def attr_prop_def
  processTextNode_def addTextNode_def tag_match_def self_closing_match_def open_tag_match_def
  indexOf.simps findMatchingClose.simps trim_def is_ws_def is_digit_def is_name_char_def
  ph_match_def slice_def endsWith_def value_at_def arr_get_def html_join_def str_at_def
  placeholder_def h_def createTextVNode_def Let_def

section \<open>Properties of the template parser\<close>

text \<open>C16: The marker encoding of \<open>html\<close> round-trips: filling the markers of the
  joined template (\<open>interpolateString\<close>, as attribute values are filled) gives back the
  template strings with each value's string in place of its marker, provided no template
  string itself contains \<open>__PLACEHOLDER_\<close>. No marker can be matched across the boundary
  of a string and the next marker.\<close>

theorem html_join_roundtrip:
  assumes "list_all (\<lambda>s. \<not> has_infix PH s) strings"
  shows "interpolateString (html_join strings n) vs =
           str_at strings 0 @ concat (map (\<lambda>i. repl_string (value_at vs i) @ str_at strings (Suc i)) [0..<n])"
proof -
  have "html_join strings n = str_at strings 0 @ marker_tail strings 0 n"
    by (simp add: html_join_def marker_tail_def)
  then show ?thesis
    using interpolateString_segment [OF str_at_no_infix [OF assms] marker_tail_shape]
      interpolateString_marker_tail [OF assms] by simp
qed

text \<open>C17: An attribute whose whole value is one marker (\<open>onClick=${handler}\<close>)
  becomes a prop holding the interpolated value itself, not its string.\<close>

theorem attribute_placeholder_value:
  assumes "name \<noteq> []" and "list_all is_name_char name" and "value_at vs i = CPrim v"
  shows "parseAttributes (name @ ''='' @ placeholder i) vs = Some [(name, v)]"
proof -
  obtain c cs where n: "name = c # cs" using assms(1) by (cases name) auto
  have tw: "takeWhile is_name_char (name @ ''='' @ placeholder i) = name"
    using takeWhile_name [OF assms(2)] by (simp add: is_name_char_def)
  have q: "try_quoted (CHR 0x22) (placeholder i) = None" "try_quoted (CHR 0x27) (placeholder i) = None"
    by (simp_all add: placeholder_not_quote)
  have ne: "placeholder i \<noteq> []" by (simp add: placeholder_def)
  have av: "attr_value (''='' @ placeholder i) = (Some (placeholder i), [])"
    unfolding attr_value_def
    using placeholder_no_ws [of i] q ne by (simp add: Let_def del: takeWhile_eq_all_conv)
  have ap: "attr_prop vs (Some (placeholder i)) = Some v"
    using ph_match_placeholder [of i "[]"] assms(3)
    by (simp add: attr_prop_def parse_digits_nat_str placeholder_def)
  have "is_name_char c" using assms(2) n by simp
  then show ?thesis
    using tw av ap n by (simp add: parseAttributes_def)
qed

text \<open>C18: An empty quoted attribute value (\<open>name=""\<close> or \<open>name=''\<close>) is
  falsy, so the attribute becomes the boolean prop \<open>true\<close>, wherever it occurs in the
  attribute string: the loop records \<open>true\<close> under the name and continues after the
  closing quote.\<close>

theorem empty_attribute_value_becomes_true:
  assumes "name \<noteq> []" and "list_all is_name_char name" and "q = CHR 0x22 \<or> q = CHR 0x27"
  shows "parseAttributes_loop vs (name @ ''='' @ [q, q] @ rest) props =
           parseAttributes_loop vs rest (AList.update name (JBool True) props)"
proof -
  obtain c cs where n: "name = c # cs" using assms(1) by (cases name) auto
  have c: "is_name_char c" using assms(2) n by simp
  have tw: "takeWhile is_name_char (name @ ''='' @ [q, q] @ rest) = name"
    using takeWhile_name [OF assms(2)] by (simp add: is_name_char_def)
  have av: "attr_value (''='' @ [q, q] @ rest) = (Some [], rest)"
    using assms(3) by (auto simp: attr_value_def try_quoted_def)
  have ap: "attr_prop vs (Some []) = Some (JBool True)"
    by (simp add: attr_prop_def)
  show ?thesis
    using tw av ap c n by simp
qed

section \<open>Witnesses\<close>

theorem html_join_roundtrip_witness:
  "interpolateString (html_join [''<p class=\"a-'', ''\">'', ''</p>''] 2) [CPrim (JStr ''x''), CPrim JNull]
     = ''<p class=\"a-x\"></p>''"
proof -
  have h: "list_all (\<lambda>s. \<not> has_infix PH s) [''<p class=\"a-'', ''\">'', ''</p>'']"
    by (simp add: has_infix_def)
  show ?thesis
    using html_join_roundtrip [OF h, of 2 "[CPrim (JStr ''x''), CPrim JNull]"]
    by (simp add: repl_string_def value_at_def arr_get_def str_at_def numeral_2_eq_2)
qed

theorem attribute_placeholder_value_witness:
  "parseAttributes (''onClick'' @ ''='' @ placeholder 0) [CPrim (JFun 1)] = Some [(''onClick'', JFun 1)]"
proof -
  have h: "''onClick'' \<noteq> []" "list_all is_name_char ''onClick''" "value_at [CPrim (JFun 1)] 0 = CPrim (JFun 1)"
    by (simp_all add: is_name_char_def value_at_def arr_get_def)
  show ?thesis using attribute_placeholder_value [OF h] .
qed


theorem empty_attribute_value_becomes_true_witness:
  "parseAttributes (''class'' @ ''='' @ [CHR 0x22, CHR 0x22] @ '' id=x'') [] =
     Some [(''class'', JBool True), (''id'', JStr ''x'')]"
proof -
  have h: "''class'' \<noteq> []" "list_all is_name_char ''class''" "CHR 0x22 = CHR 0x22 \<or> CHR 0x22 = CHR 0x27"
    by (simp_all add: is_name_char_def)
  show ?thesis
    using empty_attribute_value_becomes_true [OF h, of "[]" "'' id=x''" "[]"]
    by (simp add: html_eval is_name_char_def)
qed

end
