(* ===== verification/Mount.thy ===== *)
theory Mount
  imports Reactive Render
begin

text \<open>
  \<open>mount\<close> of \<^verbatim>\<open>src/unnamed/part_004\<close>, where the reactive store and the patcher
  meet. \<open>mount(rootComponent, container)\<close> keeps two closure variables, the last tree
  description \<open>vnode\<close> and the live root \<open>domNode\<close>, and registers \<open>update\<close> as an
  effect: the first run materialises the description and appends it to the container,
  later runs patch the live root against the previous description. The root component is
  given by the keys it reads through the proxy (a read-only effect body, so its reads are
  tracked) and by the description it builds from the values it reads (\<open>view\<close>). A
  thrown error is a value beside the state: the closure variables, the store and the
  document keep what the code assigned before the \<open>throw\<close>.
\<close>

record mvars =
  mvnode :: "vnode option"
  mdom :: "nid option"

text \<open>\<open>update\<close>: note that \<open>vnode = newVNode\<close> is assigned before \<open>createElement\<close>
  runs, and \<open>domNode\<close> only after it returned. A failed \<open>createElement\<close> leaves no node
  reachable from the container.\<close>

definition mount_update :: "nid \<Rightarrow> vnode \<Rightarrow> mvars \<Rightarrow> dom \<Rightarrow> dom_error option \<times> mvars \<times> dom" where
  "mount_update container newVNode mv d =
     (case mvnode mv of
        None \<Rightarrow>
          (let mv1 = mv\<lparr>mvnode := Some newVNode\<rparr>
           in case createElement newVNode d of
                Inl e \<Rightarrow> (Some e, mv1, d)
              | Inr (el, d1) \<Rightarrow>
                  (let mv2 = mv1\<lparr>mdom := Some el\<rparr>
                   in case appendChild container el d1 of
                        Inl e \<Rightarrow> (Some e, mv2, d1)
                      | Inr d2 \<Rightarrow> (None, mv2, d2)))
      | Some vnode \<Rightarrow>
          (case patch container (mdom mv) (Some vnode) (Some newVNode) d of
             Inl e \<Rightarrow> (Some e, mv, d)
           | Inr (el, d1) \<Rightarrow> (None, mv\<lparr>mdom := el, mvnode := Some newVNode\<rparr>, d1)))"

text \<open>A mounted application: the store, the document, the closure variables of \<open>mount\<close>,
  the id of its effect, the container and the root component's view.\<close>

record app =
  store :: rstate
  doc :: dom
  vars :: mvars
  meff :: eid
  mcontainer :: nid
  view :: "jsobj \<Rightarrow> vnode"

text \<open>\<open>mount(rootComponent, container)\<close>: register the effect (its body, \<open>fn\<close>, the
  reads of \<open>rootComponent()\<close>) and run \<open>update\<close> once in it.\<close>

definition mount :: "nat \<Rightarrow> cmd list \<Rightarrow> (jsobj \<Rightarrow> vnode) \<Rightarrow> nid \<Rightarrow> rstate \<Rightarrow> dom \<Rightarrow>
                     (dom_error option \<times> app) option" where
  "mount n fn vw container st d =
     (case effect n fn st of
        None \<Rightarrow> None
      | Some (e, st') \<Rightarrow>
          (case mount_update container (vw (target st')) \<lparr>mvnode = None, mdom = None\<rparr> d of
             (err, mv, d') \<Rightarrow>
               Some (err, \<lparr>store = st', doc = d', vars = mv, meff = e, mcontainer = container, view = vw\<rparr>)))"

text \<open>Each run of the mount effect calls \<open>update\<close>; a thrown error ends the cascade.\<close>

fun replay :: "nat \<Rightarrow> nid \<Rightarrow> vnode \<Rightarrow> mvars \<Rightarrow> dom \<Rightarrow> dom_error option \<times> mvars \<times> dom" where
  "replay 0 container v mv d = (None, mv, d)"
| "replay (Suc i) container v mv d =
     (case mount_update container v mv d of
        (Some e, mv', d') \<Rightarrow> (Some e, mv', d')
      | (None, mv', d') \<Rightarrow> replay i container v mv' d')"

text \<open>A top-level write \<open>state.k = v\<close> through the proxy, then the DOM work of every run of
  the mount effect the write caused (read off the run log), with the store's final target.\<close>

definition app_write :: "nat \<Rightarrow> string \<Rightarrow> jsval \<Rightarrow> app \<Rightarrow> (dom_error option \<times> app) option" where
  "app_write n k v a =
     (case proxy_set n k v (store a) of
        None \<Rightarrow> None
      | Some st' \<Rightarrow>
          (case replay (count_list (drop (length (runs (store a))) (runs st')) (meff a)) (mcontainer a)
                  (view a (target st')) (vars a) (doc a) of
             (err, mv, d') \<Rightarrow> Some (err, a\<lparr>store := st', doc := d', vars := mv\<rparr>)))"

text \<open>Fixtures: a component that greets the \<open>name\<close> it reads, and a component
  whose first description has an attribute name (\<open>@click\<close>) that \<open>setAttribute\<close>
  rejects until \<open>ok\<close> is set.\<close>

definition hello_view :: "jsobj \<Rightarrow> vnode" where
  "hello_view t = VNode ''p'' [] [VNode TEXT_TYPE [] [] (Some (js_String (prop_get t ''name'')))] None"

definition bad_view :: "jsobj \<Rightarrow> vnode" where
  "bad_view t = (if prop_get t ''ok'' = JBool True then VNode ''div'' [] [] None
                 else VNode ''div'' [(''@click'', JStr ''go'')] [] None)"

section \<open>Lemmas on mounting\<close>

lemma patch_null_root:
  assumes "patch c None (Some v) (Some nv) d = Inr (r, d')"
  shows "r = None \<and> d' = d \<and> diff (Some v) (Some nv) = None"
  using assms
  by (auto simp: Let_def ebind_eq_Inr split: if_splits option.splits prod.splits
      simp del: diffChildren.simps)

lemma mount_update_stuck:
  assumes "mvnode mv = Some v" and "mdom mv = None" and "mount_update c nv mv d = (err, mv', d')"
  shows "d' = d \<and> mdom mv' = None \<and> mvnode mv' \<noteq> None"
  using assms patch_null_root [of c v nv d]
  by (auto simp: mount_update_def split: sum.splits prod.splits)

lemma replay_stuck:
  "mvnode mv \<noteq> None \<Longrightarrow> mdom mv = None \<Longrightarrow> replay i c nv mv d = (err, mv', d') \<Longrightarrow>
     d' = d \<and> mdom mv' = None \<and> mvnode mv' \<noteq> None"
proof (induction i arbitrary: mv d)
  case 0
  then show ?case by simp
next
  case (Suc i)
  obtain e1 mv1 d1 where u: "mount_update c nv mv d = (e1, mv1, d1)" by (cases "mount_update c nv mv d")
  then have s: "d1 = d \<and> mdom mv1 = None \<and> mvnode mv1 \<noteq> None"
    using Suc.prems(1,2) mount_update_stuck by blast
  show ?case
  proof (cases e1)
    case None
    then show ?thesis using Suc.prems(3) Suc.IH [of mv1 d1] u s by simp
  next
    case (Some x)
    then show ?thesis using Suc.prems(3) u s by simp
  qed
qed

section \<open>Properties of mounting\<close>

text \<open>C22: Mounting a component whose body only reads runs it once in a fresh effect and
  performs the first render: when \<open>createElement\<close> and \<open>appendChild\<close> succeed, the
  closure variables hold the description and its live root, the root is appended to the
  container, and the store is unchanged.\<close>

theorem mount_first_render:
  assumes "readonly fn" and "createElement (vw (target st)) d = Inr (el, d1)"
    and "appendChild c el d1 = Inr d2"
  shows "\<exists>st'. mount (Suc n) fn vw c st d =
            Some (None, \<lparr>store = st', doc = d2, vars = \<lparr>mvnode = Some (vw (target st)), mdom = Some el\<rparr>,
                         meff = next_eid st, mcontainer = c, view = vw\<rparr>)
          \<and> runs st' = runs st @ [next_eid st] \<and> body st' (next_eid st) = fn \<and> target st' = target st"
proof -
  obtain st' where e: "effect (Suc n) fn st = Some (next_eid st, st')"
    and r: "runs st' = runs st @ [next_eid st]" "body st' (next_eid st) = fn" "target st' = target st"
    using effect_readonly [OF assms(1)] by blast
  then show ?thesis using assms(2,3)
    by (intro exI [of _ st']) (simp add: mount_def mount_update_def)
qed

text \<open>C23: A first render that throws leaves the application half-mounted: the
  effect is registered and has run once, \<open>update\<close> has assigned \<open>vnode\<close> before
  \<open>createElement\<close> threw, \<open>domNode\<close> is still \<open>null\<close>, the error is what
  \<open>createElement\<close> threw, and nothing was appended to the container.\<close>

theorem mount_failed_first_render:
  assumes "readonly fn" and "createElement (vw (target st)) d = Inl err"
  shows "\<exists>st'. mount (Suc n) fn vw c st d =
            Some (Some err, \<lparr>store = st', doc = d, vars = \<lparr>mvnode = Some (vw (target st)), mdom = None\<rparr>,
                             meff = next_eid st, mcontainer = c, view = vw\<rparr>)
          \<and> runs st' = runs st @ [next_eid st] \<and> body st' (next_eid st) = fn \<and> target st' = target st"
proof -
  obtain st' where e: "effect (Suc n) fn st = Some (next_eid st, st')"
    and r: "runs st' = runs st @ [next_eid st]" "body st' (next_eid st) = fn" "target st' = target st"
    using effect_readonly [OF assms(1)] by blast
  then show ?thesis using assms(2)
    by (intro exI [of _ st']) (simp add: mount_def mount_update_def)
qed

text \<open>C24: A failed first render is never recovered from: once \<open>vnode\<close> is set
  and \<open>domNode\<close> is \<open>null\<close>, every top-level write leaves the document unchanged
  and the application in that state. Each re-run of \<open>update\<close> patches the \<open>null\<close>
  root: a change throws a \<open>TypeError\<close> and no change does nothing, so the container
  stays as the failed render left it.\<close>

theorem app_write_stuck:
  assumes "mvnode (vars a) \<noteq> None" and "mdom (vars a) = None" and "app_write n k v a = Some (err, a')"
  shows "doc a' = doc a \<and> mdom (vars a') = None \<and> mvnode (vars a') \<noteq> None"
proof -
  obtain st' where s: "proxy_set n k v (store a) = Some st'"
    using assms(3) by (auto simp: app_write_def split: option.splits)
  define i where "i = count_list (drop (length (runs (store a))) (runs st')) (meff a)"
  obtain e mv d' where r: "replay i (mcontainer a) (view a (target st')) (vars a) (doc a) = (e, mv, d')"
    by (cases "replay i (mcontainer a) (view a (target st')) (vars a) (doc a)")
  then have "a' = a\<lparr>store := st', doc := d', vars := mv\<rparr>"
    using assms(3) s by (simp add: app_write_def i_def del: replay.simps)
  with replay_stuck [OF assms(1,2) r] show ?thesis by simp
qed

theorem mount_first_render_witness:
  "case createElement (hello_view [(''name'', JStr ''Ada'')]) empty_doc of
     Inl e \<Rightarrow> False
   | Inr (el, d1) \<Rightarrow> (case appendChild 0 el d1 of
       Inl e \<Rightarrow> False
     | Inr d2 \<Rightarrow> \<exists>st'. mount 1 [Get ''name''] hello_view 0 (createReactive [(''name'', JStr ''Ada'')]) empty_doc =
          Some (None, \<lparr>store = st', doc = d2,
                      vars = \<lparr>mvnode = Some (hello_view [(''name'', JStr ''Ada'')]), mdom = Some el\<rparr>,
                      meff = 0, mcontainer = 0, view = hello_view\<rparr>)
          \<and> runs st' = [0] \<and> nkids d2 0 = [el])"
proof -
  have "\<exists>el d1 d2. createElement (hello_view (target (createReactive [(''name'', JStr ''Ada'')]))) empty_doc = Inr (el, d1)
          \<and> appendChild 0 el d1 = Inr d2 \<and> nkids d2 0 = [el]"
    by (simp cong: ebind_weak_cong add: hello_view_def createReactive_def render_defs)
  then obtain el d1 d2 where
    h1: "createElement (hello_view (target (createReactive [(''name'', JStr ''Ada'')]))) empty_doc = Inr (el, d1)"
    and h2: "appendChild 0 el d1 = Inr d2" and h2': "nkids d2 0 = [el]" by blast
  have "readonly [Get ''name'']" by simp
  from mount_first_render [OF this, where st = "createReactive [(''name'', JStr ''Ada'')]" and n = 0 and vw = hello_view,
      OF h1 h2]
  moreover have "createElement (hello_view [(''name'', JStr ''Ada'')]) empty_doc = Inr (el, d1)"
    using h1 by (simp add: createReactive_def)
  ultimately show ?thesis using h2 h2' by (simp add: createReactive_def One_nat_def) blast
qed

theorem mount_failed_first_render_witness:
  "\<exists>st'. mount 2 [Get ''ok''] bad_view 0 (createReactive [(''ok'', JBool False)]) empty_doc =
     Some (Some InvalidCharacterError, \<lparr>store = st', doc = empty_doc,
       vars = \<lparr>mvnode = Some (bad_view [(''ok'', JBool False)]), mdom = None\<rparr>, meff = 0, mcontainer = 0,
       view = bad_view\<rparr>) \<and> runs st' = [0]"
proof -
  have h: "readonly [Get ''ok'']"
    "createElement (bad_view (target (createReactive [(''ok'', JBool False)]))) empty_doc = Inl InvalidCharacterError"
    by (simp_all cong: ebind_weak_cong add: bad_view_def createReactive_def render_defs)
  from mount_failed_first_render [where st = "createReactive [(''ok'', JBool False)]" and vw = bad_view
      and n = 1 and c = 0, OF h] show ?thesis
    by (auto simp: createReactive_def numeral_2_eq_2)
qed

theorem app_write_stuck_witness:
  "case mount 2 [Get ''ok''] bad_view 0 (createReactive [(''ok'', JBool False)]) empty_doc of
     None \<Rightarrow> False
   | Some (err, a) \<Rightarrow> (case app_write 2 ''ok'' (JBool True) a of
       None \<Rightarrow> False
     | Some (err', a') \<Rightarrow> doc a' = doc a \<and> mdom (vars a') = None \<and> mvnode (vars a') \<noteq> None)"
proof -
  have "\<exists>err a err' a'. mount 2 [Get ''ok''] bad_view 0 (createReactive [(''ok'', JBool False)]) empty_doc = Some (err, a)
          \<and> mvnode (vars a) \<noteq> None \<and> mdom (vars a) = None \<and> app_write 2 ''ok'' (JBool True) a = Some (err', a')"
    by (simp cong: ebind_weak_cong add: bad_view_def mount_def app_write_def mount_update_def
        effect_def createReactive_def cleanup_def proxy_get_def track_def set_add_def eval_nat_numeral render_defs)
  then obtain err a err' a' where m: "mount 2 [Get ''ok''] bad_view 0 (createReactive [(''ok'', JBool False)]) empty_doc = Some (err, a)"
    and h: "mvnode (vars a) \<noteq> None" "mdom (vars a) = None" and w: "app_write 2 ''ok'' (JBool True) a = Some (err', a')"
    by blast
  show ?thesis using app_write_stuck [OF h w] m w by simp
qed

end
