(* ===== verification/TutorialReactive.thy ===== *)
theory TutorialReactive
  imports Reactive
begin

text \<open>
  The reactive system as the tutorial part 6 (\<^verbatim>\<open>src/unnamed/part_001\<close>) finally
  assembles it: \<open>createReactive\<close> with \<open>track\<close> and \<open>trigger\<close> (lines 89--122, with the
  \<open>track\<close> of lines 286--296 that also records the set in \<open>effect.deps\<close>), and
  \<open>effect\<close> with \<open>cleanup\<close> (lines 264--281). Three things differ from reactive.js: the
  \<open>set\<close> trap triggers on every write (no \<open>oldValue !== value\<close> test), \<open>trigger\<close>
  iterates the live \<open>Set\<close> (no \<open>Array.from\<close> snapshot, no \<open>currentEffect\<close> test), and
  the wrapped effect resets \<open>currentEffect\<close> to \<open>null\<close> instead of restoring it.

  A JavaScript \<open>Set\<close> is modelled as ECMAScript specifies it: a list of slots in
  insertion order in which \<open>delete\<close> empties a slot (\<open>None\<close>) and \<open>add\<close> appends, and
  \<open>forEach\<close> walks the slots by index, re-reading the length at each step, so that an
  element deleted and re-added during the walk is visited again. The effect bodies are the
  command language of \<open>Reactive\<close>; the synchronous cascade is given fuel, which also bounds
  the number of steps of a \<open>forEach\<close>.
\<close>

type_synonym 'a jsset = "'a option list"

definition jsset_add :: "'a \<Rightarrow> 'a jsset \<Rightarrow> 'a jsset" where
  "jsset_add x s = (if Some x \<in> set s then s else s @ [Some x])"

definition jsset_delete :: "'a \<Rightarrow> 'a jsset \<Rightarrow> 'a jsset" where
  "jsset_delete x s = map (\<lambda>y. if y = Some x then None else y) s"

record tstate =
  ttarget :: jsobj
  tdeps :: "string \<Rightarrow> eid jsset"
  tedeps :: "eid \<Rightarrow> string list"
  tcurrent :: "eid option"
  tbody :: "eid \<Rightarrow> cmd list"
  tnext :: eid
  truns :: "eid list"

definition track_t :: "string \<Rightarrow> tstate \<Rightarrow> tstate" where
  "track_t k st =
     (case tcurrent st of
        None \<Rightarrow> st
      | Some e \<Rightarrow> st\<lparr>tdeps := (tdeps st)(k := jsset_add e (tdeps st k)),
                     tedeps := (tedeps st)(e := tedeps st e @ [k])\<rparr>)"

definition cleanup_t :: "eid \<Rightarrow> tstate \<Rightarrow> tstate" where
  "cleanup_t e st =
     st\<lparr>tdeps := fold (\<lambda>k d. d(k := jsset_delete e (d k))) (tedeps st e) (tdeps st),
        tedeps := (tedeps st)(e := [])\<rparr>"

definition proxy_get_t :: "string \<Rightarrow> tstate \<Rightarrow> jsval \<times> tstate" where
  "proxy_get_t k st = (let st' = track_t k st in (prop_get (ttarget st') k, st'))"

text \<open>\<open>wrappedEffect\<close>, the effect body, the \<open>set\<close> trap, and \<open>effects.forEach\<close> from
  slot \<open>i\<close> on.\<close>

function (sequential) run_effect_t :: "nat \<Rightarrow> eid \<Rightarrow> tstate \<Rightarrow> tstate option"
  and exec_t :: "nat \<Rightarrow> cmd list \<Rightarrow> tstate \<Rightarrow> tstate option"
  and proxy_set_t :: "nat \<Rightarrow> string \<Rightarrow> jsval \<Rightarrow> tstate \<Rightarrow> tstate option"
  and trigger_t :: "nat \<Rightarrow> string \<Rightarrow> nat \<Rightarrow> tstate \<Rightarrow> tstate option"
where
  "run_effect_t 0 e st = None"
| "run_effect_t (Suc n) e st =
     (let st1 = cleanup_t e st;
          st2 = st1\<lparr>tcurrent := Some e, truns := truns st1 @ [e]\<rparr>
      in map_option (\<lambda>st3. st3\<lparr>tcurrent := None\<rparr>) (exec_t n (tbody st2 e) st2))"
| "exec_t n [] st = Some st"
| "exec_t n (Get k # cs) st = exec_t n cs (snd (proxy_get_t k st))"
| "exec_t n (Put k v # cs) st =
     (case proxy_set_t n k v st of None \<Rightarrow> None | Some st' \<Rightarrow> exec_t n cs st')"
| "exec_t n (Incr k # cs) st =
     (let (v, st1) = proxy_get_t k st
      in case proxy_set_t n k (js_incr v) st1 of None \<Rightarrow> None | Some st' \<Rightarrow> exec_t n cs st')"
| "exec_t n (When k v a b # cs) st =
     (let (x, st1) = proxy_get_t k st in exec_t n ((if strict_eq x v then a else b) @ cs) st1)"
| "proxy_set_t n k v st = trigger_t n k 0 (st\<lparr>ttarget := AList.update k v (ttarget st)\<rparr>)"
| "trigger_t 0 k i st = None"
| "trigger_t (Suc n) k i st =
     (if length (tdeps st k) \<le> i then Some st
      else case tdeps st k ! i of
             None \<Rightarrow> trigger_t n k (Suc i) st
           | Some e \<Rightarrow> (case run_effect_t n e st of None \<Rightarrow> None | Some st' \<Rightarrow> trigger_t n k (Suc i) st'))"
  by pat_completeness auto
termination
  by (relation "measures
        [\<lambda>x. case x of Inl (Inl (n, _)) \<Rightarrow> n | Inl (Inr (n, _)) \<Rightarrow> n
                     | Inr (Inl (n, _)) \<Rightarrow> n | Inr (Inr (n, _)) \<Rightarrow> n,
         \<lambda>x. case x of Inl (Inl _) \<Rightarrow> 0 | Inl (Inr _) \<Rightarrow> 3 | Inr (Inl _) \<Rightarrow> 2 | Inr (Inr _) \<Rightarrow> 1,
         \<lambda>x. case x of Inl (Inr (_, cs, _)) \<Rightarrow> size_list size cs | _ \<Rightarrow> 0]")
     (auto simp: proxy_get_t_def split: prod.splits)

definition effect_t :: "nat \<Rightarrow> cmd list \<Rightarrow> tstate \<Rightarrow> (eid \<times> tstate) option" where
  "effect_t n fn st =
     (let e = tnext st;
          st1 = st\<lparr>tbody := (tbody st)(e := fn), tedeps := (tedeps st)(e := []), tnext := Suc e\<rparr>
      in map_option (\<lambda>st'. (e, st')) (run_effect_t n e st1))"

definition createReactive_t :: "jsobj \<Rightarrow> tstate" where
  "createReactive_t t =
     \<lparr>ttarget = t, tdeps = (\<lambda>_. []), tedeps = (\<lambda>_. []), tcurrent = None, tbody = (\<lambda>_. []),
      tnext = 0, truns = []\<rparr>"

text \<open>The state of the tutorial's counter example while \<open>trigger('count')\<close> is at slot
  \<open>i\<close>: the only effect, which reads \<open>count\<close>, sits in the last slot of the set.\<close>

definition counter_at :: "nat \<Rightarrow> tstate \<Rightarrow> bool" where
  "counter_at i st \<longleftrightarrow>
     tdeps st ''count'' = replicate i None @ [Some 0] \<and> tedeps st 0 = [''count''] \<and>
     tbody st 0 = [Get ''count'']"

section \<open>Lemmas on the tutorial's reactive system\<close>

lemma jsset_delete_last: "jsset_delete e (replicate i None @ [Some e]) = replicate (Suc i) None"
  by (induction i) (simp_all add: jsset_delete_def)

lemma counter_run:
  assumes "counter_at i st"
  shows "\<exists>st'. run_effect_t (Suc m) 0 st = Some st' \<and> counter_at (Suc i) st'"
  using assms
  by (simp add: counter_at_def cleanup_t_def proxy_get_t_def track_t_def jsset_delete_last
      jsset_add_def)

lemma counter_trigger_None: "counter_at i st \<Longrightarrow> trigger_t n ''count'' i st = None"
proof (induction n arbitrary: i st)
  case 0
  then show ?case by simp
next
  case (Suc n)
  then have slot: "length (tdeps st ''count'') = Suc i" "tdeps st ''count'' ! i = Some 0"
    by (simp_all add: counter_at_def nth_append)
  show ?case
  proof (cases n)
    case 0
    then show ?thesis using slot by simp
  next
    case (Suc m)
    obtain st' where "run_effect_t n 0 st = Some st'" "counter_at (Suc i) st'"
      using counter_run [OF Suc.prems] Suc by blast
    then show ?thesis using slot Suc.IH [of "Suc i" st'] by (simp del: run_effect_t.simps)
  qed
qed

section \<open>Properties of the tutorial's reactive system\<close>

text \<open>C8: The tutorial's final reactive system never returns from a write to a key an
  effect reads: the wrapped effect deletes itself from the key's \<open>Set\<close> in
  \<open>cleanup\<close> and re-adds itself when it reads the key again, so the live
  \<open>effects.forEach\<close> of \<open>trigger\<close> visits it again, for any fuel. On the tutorial's
  counter example (\<open>effect(() => state.count)\<close>, then \<open>state.count = 5\<close>) reactive.js,
  which iterates a snapshot, runs the effect once more and returns.\<close>

theorem tutorial_counter_diverges:
  "(\<forall>n. case effect_t 2 [Get ''count''] (createReactive_t [(''count'', JNum 0)]) of
          None \<Rightarrow> False
        | Some (e, st) \<Rightarrow> proxy_set_t n ''count'' (JNum 5) st = None)
   \<and> (case effect 2 [Get ''count''] (createReactive [(''count'', JNum 0)]) of
          None \<Rightarrow> False
        | Some (e, st) \<Rightarrow> map_option runs (proxy_set 1 ''count'' (JNum 5) st) = Some [0, 0])"
proof -
  obtain st where h: "effect_t 2 [Get ''count''] (createReactive_t [(''count'', JNum 0)]) = Some (0, st)"
    and c: "counter_at 0 (st\<lparr>ttarget := AList.update ''count'' (JNum 5) (ttarget st)\<rparr>)"
    by (simp add: eval_nat_numeral effect_t_def createReactive_t_def cleanup_t_def proxy_get_t_def
        track_t_def jsset_add_def counter_at_def)
  have "\<forall>n. proxy_set_t n ''count'' (JNum 5) st = None"
    using counter_trigger_None [OF c] by simp
  moreover have "case effect 2 [Get ''count''] (createReactive [(''count'', JNum 0)]) of
          None \<Rightarrow> False
        | Some (e, st) \<Rightarrow> map_option runs (proxy_set 1 ''count'' (JNum 5) st) = Some [0, 0]"
    by (simp add: eval_nat_numeral effect_def createReactive_def cleanup_def proxy_get_def track_def
        set_add_def strict_eq_def)
  ultimately show ?thesis using h by simp
qed

end
