(* ===== verification/TutorialHtml.thy ===== *)
theory TutorialHtml
  imports Html
begin

text \<open>
  The template parser as the tutorial part 7 (\<^verbatim>\<open>src/unnamed/part_000\<close>, lines
  343--530) first writes it, beside html.js of \<open>Html\<close>. Its \<open>html\<close> and \<open>parseHTML\<close>
  are those of html.js up to the regular expressions, and its \<open>parseChildren\<close> is a
  stub; two functions are complete and differ: \<open>parseAttributes\<close> (lines 440--470) takes
  names of word characters only, \<open>(\w+)\<close>, and quoted values without escapes,
  \<open>"([^"]*)"\<close>; \<open>processTextNode\<close> (lines 505--530) keeps only the interpolated values,
  stringifying \<open>null\<close> and \<open>undefined\<close>, and returns a lone part unwrapped.
\<close>

section \<open>Attributes\<close>

text \<open>\<open>\w\<close>: ASCII letters, digits and \<open>_\<close>.\<close>

definition is_word_char :: "char \<Rightarrow> bool" where
  "is_word_char c \<longleftrightarrow> is_name_char c \<and> c \<noteq> CHR ''-''"

text \<open>\<open>q([^q]*)q\<close> after the \<open>=\<close>: the body up to the next quote of the same kind.\<close>

definition try_quoted_draft :: "char \<Rightarrow> string \<Rightarrow> (string \<times> string) option" where
  "try_quoted_draft q s =
     (case s of
        c # cs \<Rightarrow>
          if c = q then
            let b = takeWhile (\<lambda>x. x \<noteq> q) cs
            in if length b < length cs then Some (b, drop (Suc (length b)) cs) else None
          else None
      | [] \<Rightarrow> None)"

definition attr_value_draft :: "string \<Rightarrow> string option \<times> string" where
  "attr_value_draft r =
     (case r of
        c # r' \<Rightarrow>
          if c \<noteq> CHR ''='' then (None, r)
          else (case try_quoted_draft (CHR 0x22) r' of
                  Some (b, rest) \<Rightarrow> (Some b, rest)
                | None \<Rightarrow>
                    (case try_quoted_draft (CHR 0x27) r' of
                       Some (b, rest) \<Rightarrow> (Some b, rest)
                     | None \<Rightarrow>
                         let u = takeWhile (\<lambda>x. \<not> is_ws x) r'
                         in if u = [] then (None, r) else (Some u, drop (length u) r')))
      | [] \<Rightarrow> (None, []))"

lemma attr_value_draft_length: "attr_value_draft s = (v, rest) \<Longrightarrow> length rest \<le> length s"
  by (auto simp: attr_value_draft_def try_quoted_draft_def Let_def
      split: list.splits option.splits if_splits prod.splits)

function parseAttributes_draft_loop :: "child list \<Rightarrow> string \<Rightarrow> jsobj \<Rightarrow> jsobj option" where
  "parseAttributes_draft_loop vs [] props = Some props"
| "parseAttributes_draft_loop vs (c # cs) props =
     (if \<not> is_word_char c then parseAttributes_draft_loop vs cs props
      else let name = takeWhile is_word_char (c # cs);
               (value, rest) = attr_value_draft (drop (length name) (c # cs))
           in case attr_prop vs value of
                None \<Rightarrow> None
              | Some v \<Rightarrow> parseAttributes_draft_loop vs rest (AList.update name v props))"
  by pat_completeness auto
termination
proof (relation "measure (\<lambda>(vs, s, p). length s)", goal_cases)
  case (3 vs c cs props name x v rest)
  then have "length rest \<le> length (drop (length name) (c # cs))"
    by (metis attr_value_draft_length)
  moreover from 3 have "0 < length name" by simp
  ultimately have "length rest < Suc (length cs)" by (simp del: length_greater_0_conv)
  then show ?case by simp
qed simp_all

definition parseAttributes_draft :: "string \<Rightarrow> child list \<Rightarrow> jsobj option" where
  "parseAttributes_draft attrsString vs = parseAttributes_draft_loop vs attrsString []"

section \<open>Text\<close>

text \<open>What one marker contributes: an array its elements, a vnode itself, any other value
  \<open>String(value)\<close>, \<open>null\<close> and \<open>undefined\<close> included.\<close>

fun value_parts_draft :: "child \<Rightarrow> child list" where
  "value_parts_draft (CArray xs) = xs"
| "value_parts_draft (CNode n) = (if vtype n \<noteq> [] then [CNode n] else [CPrim (JStr ''[object Object]'')])"
| "value_parts_draft (CPrim x) = [CPrim (JStr (js_String x))]"

text \<open>The \<open>regex.exec\<close> loop: the markers' values, in order; the text between them is
  not kept.\<close>

function text_parts_draft :: "child list \<Rightarrow> string \<Rightarrow> child list" where
  "text_parts_draft vs [] = []"
| "text_parts_draft vs (c # cs) =
     (case ph_match (c # cs) of
        Some (ds, rest) \<Rightarrow> value_parts_draft (value_at vs (parse_digits ds)) @ text_parts_draft vs rest
      | None \<Rightarrow> text_parts_draft vs cs)"
  by pat_completeness auto
termination
  by (relation "measure (\<lambda>(vs, s). length s)") (auto simp: ph_match_def Let_def split: if_splits)

definition processTextNode_draft :: "string \<Rightarrow> child list \<Rightarrow> child" where
  "processTextNode_draft text vs =
     (let parts = text_parts_draft vs text in if length parts = 1 then hd parts else CArray parts)"

section \<open>Lemmas on the tutorial's parser\<close>

lemma has_infix_Cons:
  assumes "has_infix t cs"
  shows "has_infix t (c # cs)"
proof (cases "t = []")
  case True
  then show ?thesis by (auto simp: has_infix_def list_ex_iff)
next
  case False
  with assms obtain k where "k < length cs" "take (length t) (drop k cs) = t"
    by (auto simp: has_infix_def list_ex_iff)
  then show ?thesis unfolding has_infix_def list_ex_iff by (intro bexI [of _ "Suc k"]) auto
qed

lemma text_parts_draft_plain: "\<not> has_infix PH s \<Longrightarrow> text_parts_draft vs s = []"
proof (induction s)
  case (Cons c cs)
  have "ph_match (c # cs) = None" using no_ph_end [OF Cons.prems, of 0] by simp
  moreover have "\<not> has_infix PH cs" using Cons.prems has_infix_Cons by blast
  ultimately show ?case using Cons.IH by simp
qed simp

section \<open>Properties of the tutorial's parser\<close>

text \<open>Text without markers vanishes: the draft's parts are the markers' values only, and an
  empty parts array is returned as it is.\<close>

theorem processTextNode_draft_plain:
  "\<not> has_infix PH text \<Longrightarrow> processTextNode_draft text vs = CArray []"
  by (simp add: processTextNode_draft_def text_parts_draft_plain)

text \<open>Where the drafts and html.js part: literal text next to a marker, and hyphenated
  attribute names.\<close>

theorem tutorial_parser_divergences:
  "processTextNode_draft ''Hello __PLACEHOLDER_0__'' [CPrim (JStr ''Ada'')] = CPrim (JStr ''Ada'')
   \<and> processTextNode ''Hello __PLACEHOLDER_0__'' [CPrim (JStr ''Ada'')]
       = CArray [CPrim (JStr ''Hello ''), CPrim (JStr ''Ada'')]
   \<and> parseAttributes_draft (''data-id='' @ CHR 0x22 # ''7'' @ [CHR 0x22]) [] = Some [(''data'', JBool True), (''id'', JStr ''7'')]
   \<and> parseAttributes (''data-id='' @ CHR 0x22 # ''7'' @ [CHR 0x22]) [] = Some [(''data-id'', JStr ''7'')]"
  by (simp add: processTextNode_draft_def parseAttributes_draft_def attr_value_draft_def try_quoted_draft_def
      is_word_char_def parse_digits_def html_eval)

theorem processTextNode_draft_plain_witness:
  "\<not> has_infix PH ''Hello'' \<and> processTextNode_draft ''Hello'' [] = CArray []"
proof -
  have h: "\<not> has_infix PH ''Hello''" by (simp add: has_infix_def)
  show ?thesis using h processTextNode_draft_plain [OF h, of "[]"] by simp
qed

end
