(* ===== verification/Spec2Isabelle.thy ===== *)
theory Spec2Isabelle
  imports Diff Diff0 Warnings Reactive Render RenderNS Html Mount TutorialReactive TutorialHtml
begin

text \<open>
  \<^bold>\<open>A verification library for murjs\<close>, a minimal reactive UI framework in plain
  JavaScript: \<^verbatim>\<open>src/src/vdom.js\<close> (two copies of the differ), \<^verbatim>\<open>src/src/render.js\<close>,
  and, as unnamed parts, the HTML template parser (\<^verbatim>\<open>src/unnamed/part_002\<close>, html.js),
  the reactive store (\<^verbatim>\<open>part_003\<close>, reactive.js), \<open>mount\<close> (\<^verbatim>\<open>part_004\<close>) and
  the namespace-aware renderer (\<^verbatim>\<open>part_005\<close>).

  \<^bold>\<open>The program.\<close> Components build tree descriptions (virtual nodes) with \<open>h\<close> or
  with the \<open>html\<close> tagged template; \<open>diff\<close> compares the previous and the next
  description and returns a patch; \<open>patch\<close> recomputes that diff and applies it to the
  live DOM, reconciling child lists by position or, when every new child has a \<open>key\<close>, by
  key with \<open>insertBefore\<close> moves; \<open>createReactive\<close> wraps the state in a proxy that
  records which effect read which property and re-runs those effects synchronously when a
  property changes; \<open>mount\<close> registers the render effect that calls the component and
  creates or patches the DOM.

  \<^bold>\<open>Theories and what they model.\<close>
  \<^item> \<open>Prelude\<close>: JavaScript values (\<open>jsval\<close>: numbers as \<open>int\<close> with a separate
    \<open>NaN\<close>, functions and objects as references), \<open>===\<close> (\<open>strict_eq\<close>),
    SameValueZero, \<open>!= null\<close> (\<open>nullish\<close>), truthiness, \<open>String()\<close>, lower/upper
    case, plain objects as association lists, \<open>Map\<close>, sparse arrays, and the error monad
    \<open>ebind\<close> on \<open>'e + 'a\<close> with its congruence rules.
  \<^item> \<open>VNode\<close> (vdom.js 1--18): \<open>vnode\<close>, \<open>createTextVNode\<close>, \<open>h\<close> with
    \<open>children.flat(Infinity)\<close>; \<open>wf_vnode\<close>.
  \<^item> \<open>Diff\<close> (vdom.js 20--131): patch datatypes (\<open>null\<close> is \<open>None\<close>),
    \<open>diffProps\<close>, \<open>keyedCount\<close>, \<open>oldKeyMap\<close>, and \<open>diff\<close>/\<open>diffChildren\<close>/
    \<open>diffPositional\<close> as one mutually recursive function, terminating by a size measure;
    the keyed branch unfolded index by index against a reference (\<open>keyed_entry\<close>).
  \<^item> \<open>Warnings\<close> (vdom.js 63--77): the one-time console warnings of \<open>diffChildren\<close>
    with their module-level flags (\<open>diag_children\<close>, \<open>diag_run\<close>).
  \<^item> \<open>Diff0\<close> (vdom.js 151--204): the earlier positional-only differ (\<open>diff0\<close>,
    \<open>diffChildren0\<close>, \<open>patch0\<close>), related to \<open>Diff\<close> by the translation \<open>to0\<close>.
  \<^item> \<open>Reactive\<close> (part_003): the store as one record \<open>rstate\<close> (target, the map
    \<open>deps\<close>, each effect's \<open>deps\<close> array \<open>edeps\<close>, \<open>currentEffect\<close>, effect bodies
    as a small command language, a run log); \<open>track\<close>, \<open>cleanup\<close>, the proxy traps
    \<open>proxy_get\<close>/\<open>proxy_set\<close>, \<open>trigger\<close>, \<open>effect\<close> with its \<open>finally\<close>. The
    synchronous cascade of writes and effect runs is one mutually recursive function with
    \<^bold>\<open>fuel\<close>: running out is \<open>None\<close>. Read-only effect bodies return with any fuel of
    at least one (they cannot write, so the cascade has depth one); the divergence theorem
    C13 shows that no fuel suffices for a cycle, so fuel is not a bound the source has.
    Reachable states are the \<^theory_text>\<open>inductive\<close> \<open>reach\<close>.
  \<^item> \<open>Dom\<close>: the browser DOM the renderers call, as an explicit store \<open>dom\<close> of node
    ids (fresh ids from the counter \<open>nfresh\<close>): kinds (text, HTML element, namespaced
    element), attributes, properties, style, listeners, children, parents; the operations
    used (\<open>createElement\<close>, \<open>createElementNS\<close>, \<open>setAttribute\<close>,
    \<open>appendChild\<close>, \<open>insertBefore\<close>, \<open>removeChild\<close>, \<open>replaceChild\<close>, the
    \<open>className\<close> setter, \<open>addEventListener\<close>, ...) with the DOMExceptions they throw
    as \<open>dom_error\<close>. Modelled from the DOM standard, not from \<^verbatim>\<open>src/\<close>; the frame
    predicate \<open>kframe\<close> says an operation keeps existing nodes' kinds.
  \<^item> \<open>Render\<close> (render.js): \<open>setProp\<close> (with \<open>setHandler\<close>), \<open>removeProp\<close>,
    \<open>createElement\<close>, \<open>patch\<close>, \<open>patchKeyedChildren\<close> (\<open>patchKeyed\<close>, the
    \<open>insertBefore\<close> pass \<open>reorder\<close>, the trim loop \<open>trimChildren\<close>), errors as
    \<open>dom_error + _\<close>, and the handler table \<open>eventHandlers\<close> as a map in the store.
  \<^item> \<open>RenderNS\<close> (part_005): the namespace-aware variant (\<open>getNamespace\<close>,
    \<open>createElement_ns\<close>, \<open>setProp_ns\<close>, \<open>patch_ns\<close>, \<open>childNs_of\<close>), sharing
    \<open>removeProp\<close>, \<open>reorder\<close> and \<open>trimChildren\<close> with \<open>Render\<close>.
  \<^item> \<open>Html\<close> (part_002): the template parser with its regular expressions written as
    string functions (\<open>tag_match\<close>, \<open>open_tag_match\<close>, \<open>findMatchingClose\<close>, ...),
    \<open>parseAttributes\<close>, \<open>interpolateString\<close>, \<open>processTextNode\<close>, the mutually
    recursive \<open>parseHTML\<close>/\<open>parseChildren\<close> (terminating on the input length), and
    \<open>html\<close> with its placeholder join.
  \<^item> \<open>Mount\<close> (part_004): \<open>mount\<close> and its \<open>update\<close> closure (\<open>mount_update\<close>,
    closure variables \<open>mvars\<close>), composed with \<open>Reactive\<close> and \<open>Render\<close>; a
    top-level write and the update runs it causes is \<open>app_write\<close>.
  \<^item> \<open>TutorialReactive\<close> (part_001, the tutorial's part 6): the reactive system as the
    tutorial assembles it (\<open>createReactive_t\<close>, \<open>track_t\<close>, \<open>trigger_t\<close>,
    \<open>effect_t\<close>, \<open>cleanup_t\<close>), with a JavaScript \<open>Set\<close> as ECMAScript defines it
    (slots emptied by \<open>delete\<close>, \<open>forEach\<close> by index over the live list), and the same
    fuel as \<open>Reactive\<close>, which here also bounds the steps of a \<open>forEach\<close>.
  \<^item> \<open>TutorialHtml\<close> (part_000, the tutorial's part 7): the first \<open>parseAttributes\<close>
    and \<open>processTextNode\<close>, compared with html.js; the flagless warnings of the
    tutorial's first \<open>diffChildren\<close> are in \<open>Warnings\<close>.

  \<^bold>\<open>What is proved.\<close> Differ: keyed accounting and entry shapes (C1, C2), self-diff
  is a no-op but not \<open>null\<close> (C3, C4), \<open>diffProps\<close> completeness (C5), the positional
  loop (C6), keyed stability of a prepend for any keyed list with distinct keys (C7). The
  tutorial's reactive code never returns from a write its counter example makes, where
  reactive.js returns (C8). Reactive store: the dependency invariant on reachable states (C9),
  propagation of a write (C10), re-subscription on each run (C11), termination of read-only
  effects (C12), divergence of a two-effect cycle (C13), self-suppression of an effect that
  increments what it reads (C14). Patcher: removing \<open>className\<close> from a live HTML
  element leaves \<open>class=""\<close> (C15). Parser: the placeholder round trip (C16), an
  attribute that is one marker (C17), an empty quoted value becoming \<open>true\<close> (C18).
  Namespace patcher: the namespace of created roots (C19), the \<open>foreignObject\<close> bug
  for every element a patch creates there (C20), every removal of \<open>className\<close> from a
  live SVG element throwing (C21). Mount: the first render (C22), a first render that throws
  (C23), and that such a failure is never recovered from by any write (C24). Earlier differ:
  the keyed differ refines it on inputs without fully keyed lists (C25), bounds on child patch
  counts (C26). Warnings are one-time (C27). All are stated for arbitrary inputs; each
  theorem with hypotheses is applied at a concrete input by its witness.

  \<^bold>\<open>Not modelled.\<close> The tutorial's prose (\<^verbatim>\<open>src/blog\<close>, the README and
  the text of \<^verbatim>\<open>part_000\<close>--\<^verbatim>\<open>part_002\<close>), its usage examples, its stubs
  (\<open>parseChildren\<close> with the body elided), its earliest \<open>effect\<close> (part_001 lines
  134--138, replaced within the tutorial by the one modelled), and the snippets identical to
  the shipped code, which the shipped models already cover; JavaScript's prototype chain in \<open>props[key]\<close> (own properties only); \<open>-0\<close> and
  non-integer numbers; the parts of the DOM the code does not call (layout, events being
  dispatched). In \<open>Mount\<close> the root component is given by its tracked reads and a view
  of the target, and \<open>app_write\<close> replays the update runs with the final target, exact
  when the other effects only read; a failed \<open>patch\<close> keeps the document as it was before
  the patch.
\<close>

end
